theory Spec2Isabelle
  imports Main "HOL-Library.Word" "HOL-Library.AList"
begin

section \<open>Strings, numbers and errors of the JavaScript runtime\<close>

text \<open>
  The extension is TypeScript on Node.js. Strings are modelled as \<open>string\<close> (a list of
  8-bit characters), the bytes of a \<open>Buffer\<close> as a list of 8-bit words, an optional
  parameter or a value that may be \<open>undefined\<close> as an \<open>option\<close>, and a thrown
  \<open>Error\<close> as a value of type \<open>error\<close> carrying its message.
\<close>

type_synonym bytes = "8 word list"

datatype error = Error string | TypeError string | SyntaxError string

fun message :: "error \<Rightarrow> string" where
  "message (Error m) = m"
| "message (TypeError m) = m"
| "message (SyntaxError m) = m"

text \<open>\<open>s.startsWith(p)\<close>.\<close>

definition startsWith :: "string \<Rightarrow> string \<Rightarrow> bool" where
  "startsWith s p = (take (length p) s = p)"

text \<open>
  \<open>s.trim()\<close>: white space is removed at both ends. The ASCII white space characters
  are modelled (space, tab, line feed, vertical tab, form feed, carriage return).
\<close>

definition is_ws :: "char \<Rightarrow> bool" where
  "is_ws c = (c \<in> set [CHR '' '', CHR 0x09, CHR 0x0A, CHR 0x0B, CHR 0x0C, CHR 0x0D])"

definition trim :: "string \<Rightarrow> string" where
  "trim s = rev (dropWhile is_ws (rev (dropWhile is_ws s)))"

text \<open>A template literal \<open>${n}\<close> prints an integral number in decimal.\<close>

definition digit_char :: "nat \<Rightarrow> char" where
  "digit_char d = ''0123456789'' ! (d mod 10)"

fun show_nat :: "nat \<Rightarrow> string" where
  "show_nat n = (if n < 10 then [digit_char n] else show_nat (n div 10) @ [digit_char (n mod 10)])"

declare show_nat.simps [simp del]

definition show_int :: "int \<Rightarrow> string" where
  "show_int i = (if i < 0 then CHR ''-'' # show_nat (nat (- i)) else show_nat (nat i))"

text \<open>The exit code handed to the \<open>close\<close> listener is a number, or \<open>null\<close> when the
  child was ended by a signal.\<close>

fun show_code :: "int option \<Rightarrow> string" where
  "show_code None = ''null''"
| "show_code (Some c) = show_int c"

section \<open>The path module (POSIX)\<close>

text \<open>
  \<open>path.basename\<close> and \<open>path.join\<close> of Node.js, in their POSIX variant: the separator is
  the slash. \<open>basename\<close> drops trailing slashes and returns what follows the last
  remaining slash. \<open>join\<close> puts a slash between its non-empty arguments and normalises
  the result: empty and \<open>.\<close> segments are dropped and \<open>..\<close> removes the segment before it.
\<close>

definition basename :: "string \<Rightarrow> string" where
  "basename p =
     rev (takeWhile (\<lambda>c. c \<noteq> CHR ''/'') (dropWhile (\<lambda>c. c = CHR ''/'') (rev p)))"

fun split_slash :: "string \<Rightarrow> string list" where
  "split_slash [] = [[]]"
| "split_slash (c # cs) =
     (if c = CHR ''/'' then [] # split_slash cs
      else (case split_slash cs of [] \<Rightarrow> [[c]] | s # ss \<Rightarrow> (c # s) # ss))"

fun join_slash :: "string list \<Rightarrow> string" where
  "join_slash [] = []"
| "join_slash [s] = s"
| "join_slash (s # t # ss) = s @ CHR ''/'' # join_slash (t # ss)"

definition norm_step :: "bool \<Rightarrow> string list \<Rightarrow> string \<Rightarrow> string list" where
  "norm_step allowAboveRoot res seg =
     (if seg = [] \<or> seg = ''.'' then res
      else if seg = ''..'' then
        (if res \<noteq> [] \<and> last res \<noteq> ''..'' then butlast res
         else if allowAboveRoot then res @ [''..'']
         else res)
      else res @ [seg])"

definition normalizeString :: "string \<Rightarrow> bool \<Rightarrow> string" where
  "normalizeString p allowAboveRoot =
     join_slash (foldl (norm_step allowAboveRoot) [] (split_slash p))"

definition path_normalize :: "string \<Rightarrow> string" where
  "path_normalize p =
     (if p = [] then ''.''
      else
        let isAbsolute = (hd p = CHR ''/'');
            trailingSeparator = (last p = CHR ''/'');
            q = normalizeString p (\<not> isAbsolute)
        in if q = [] then (if isAbsolute then ''/'' else if trailingSeparator then ''./'' else ''.'')
           else (if isAbsolute then ''/'' else []) @ q @ (if trailingSeparator then ''/'' else []))"

definition path_join :: "string \<Rightarrow> string \<Rightarrow> string" where
  "path_join a b =
     (let joined = (if a = [] then b else if b = [] then a else a @ CHR ''/'' # b)
      in if joined = [] then ''.'' else path_normalize joined)"

section \<open>The world outside the extension\<close>

text \<open>
  The file system maps a path to the bytes of the file there. The events are what the
  child process and the write stream deliver to the listeners that \<open>awsS3CpToFile\<close>
  registers, in the order of their delivery: data on stdout (which the pipe writes to the
  file) and on stderr, \<open>error\<close> of the write stream, \<open>error\<close> of the child, \<open>close\<close> of the
  child with its exit code, and the run of the callback given to \<open>out.close\<close> (at the
  \<open>close\<close> of the write stream, or at the next tick when the stream was closed already).
\<close>

type_synonym filesystem = "string \<rightharpoonup> bytes"

datatype event =
    StdoutData bytes
  | StderrData string
  | OutError error
  | ChildError error
  | Close "int option"
  | OutClosed

text \<open>
  What \<open>JSON.parse\<close> returns, and \<open>undefined\<close>, which reading an absent property gives.
\<close>

datatype jsval =
    JUndefined
  | JNull
  | JBool bool
  | JNum int
  | JStr string
  | JArr "jsval list"
  | JObj "(string \<times> jsval) list"

text \<open>
  How \<open>execFile\<close> calls back: with an error (its message, and the text of stderr), or
  with the text of stdout.
\<close>

datatype exec_result = ExecFailed string string | ExecOk string

datatype action =
    Spawn string "string list" "(string \<times> string) list"
  | CreateWriteStream string
  | Kill string
  | Unlink string
  | ShowInputBox
  | ExecFile string "string list" "(string \<times> string) list"
  | ShowQuickPick "jsval list" string
  | OpenTextDocument string
  | ShowTextDocument string
  | SetTextDocumentLanguage string
  | SetStatusBarMessage string nat
  | ShowErrorMessage string
  | RegisterCommand string

record world =
  platform :: string
  process_env :: "(string \<times> string) list"
  tmpdir :: string
  now :: nat
  open_error :: "error option"
  events :: "event list"
  unlink_fails :: bool
  input_box :: "error + string option"
  exec_file :: "string list \<Rightarrow> exec_result"
  json_parse :: "string \<Rightarrow> error + jsval"
  quick_pick :: "jsval list \<Rightarrow> string \<Rightarrow> string option"
  open_document :: "error + string"
  show_document :: "error option"
  set_language :: "error option"

text \<open>The object spread \<open>{ ...a, ...b }\<close>: the entries of \<open>b\<close> override those of \<open>a\<close>.\<close>

definition spread :: "(string \<times> string) list \<Rightarrow> (string \<times> string) list \<Rightarrow> (string \<times> string) list" where
  "spread a b = foldl (\<lambda>acc (k, v). AList.update k v acc) a b"

section \<open>awsS3CpToFile\<close>

definition awsCmd :: "world \<Rightarrow> string" where
  "awsCmd w = (if platform w = ''win32'' then ''aws.exe'' else ''aws'')"

definition cp_args :: "string \<Rightarrow> string list" where
  "cp_args s3Uri = [''s3'', ''cp'', s3Uri, ''-'', ''--no-progress'', ''--only-show-errors'']"

text \<open>
  The state the listeners share: the file system (the write stream appends to the file at
  \<open>destPath\<close>), the text collected from stderr, the exit code held by the callback that
  the \<open>close\<close> listener has given to \<open>out.close\<close> (the first one, should there be several),
  and what was done.
\<close>

record xfer =
  files :: filesystem
  stderrBuf :: string
  closing :: "int option option"
  acts :: "action list"

text \<open>
  One delivered event. The second component is how the listener settles the promise, if
  it does: \<open>Inl\<close> is \<open>reject\<close>, \<open>Inr\<close> is \<open>resolve\<close>. The \<open>close\<close> listener of the child
  settles nothing itself: it calls \<open>out.close\<close> with a callback, and the exit code is looked
  at when that callback runs.
\<close>

fun on_event :: "string \<Rightarrow> event \<Rightarrow> xfer \<Rightarrow> xfer \<times> (error + unit) option" where
  "on_event destPath (StdoutData chunk) st =
     (case files st destPath of
        None \<Rightarrow> (st, None)
      | Some b \<Rightarrow> (st\<lparr>files := (files st)(destPath \<mapsto> b @ chunk)\<rparr>, None))"
| "on_event destPath (StderrData d) st = (st\<lparr>stderrBuf := stderrBuf st @ d\<rparr>, None)"
| "on_event destPath (OutError err) st = (st\<lparr>acts := acts st @ [Kill ''SIGKILL'']\<rparr>, Some (Inl err))"
| "on_event destPath (ChildError err) st = (st, Some (Inl err))"
| "on_event destPath (Close code) st =
     (st\<lparr>closing := (case closing st of None \<Rightarrow> Some code | Some c \<Rightarrow> Some c)\<rparr>, None)"
| "on_event destPath OutClosed st =
     (case closing st of
        None \<Rightarrow> (st, None)
      | Some code \<Rightarrow>
          (st, Some (if code = Some 0 then Inr ()
                     else Inl (Error (''AWS CLI exited with code '' @ show_code code @ '': ''
                                        @ trim (stderrBuf st))))))"

text \<open>
  A promise settles once, and the caller that awaits it goes on from there: the events
  are handled up to the first one that settles. When none does, the promise stays
  pending and the call never returns (\<open>None\<close>).
\<close>

fun run_events :: "string \<Rightarrow> event list \<Rightarrow> xfer \<Rightarrow> xfer \<times> (error + unit) option" where
  "run_events destPath [] st = (st, None)"
| "run_events destPath (ev # evs) st =
     (case on_event destPath ev st of
        (st', Some r) \<Rightarrow> (st', Some r)
      | (st', None) \<Rightarrow> run_events destPath evs st')"

text \<open>
  \<open>fs.createWriteStream(destPath)\<close> opens the file for writing, which creates it or
  empties it. When the open fails the file system is left as it is and the stream
  emits \<open>error\<close> before anything else.
\<close>

definition awsS3CpToFile ::
    "world \<Rightarrow> string \<Rightarrow> string \<Rightarrow> (string \<times> string) list \<Rightarrow> filesystem
      \<Rightarrow> (error + unit) option \<times> filesystem \<times> action list" where
  "awsS3CpToFile w s3Uri destPath envExtras fs =
     (let st0 = \<lparr>files = (case open_error w of None \<Rightarrow> fs(destPath \<mapsto> []) | Some e \<Rightarrow> fs),
                 stderrBuf = [],
                 closing = None,
                 acts = [Spawn (awsCmd w) (cp_args s3Uri) (spread (process_env w) envExtras),
                         CreateWriteStream destPath]\<rparr>;
          evs = (case open_error w of None \<Rightarrow> events w | Some e \<Rightarrow> OutError e # events w);
          (st, r) = run_events destPath evs st0
      in (r, files st, acts st))"

section \<open>fetchCsvToTemp\<close>

definition truthy :: "string option \<Rightarrow> bool" where
  "truthy s = (case s of None \<Rightarrow> False | Some v \<Rightarrow> v \<noteq> [])"

definition envExtrasOf :: "string option \<Rightarrow> string option \<Rightarrow> (string \<times> string) list" where
  "envExtrasOf profile region =
     (let e0 = [];
          e1 = (if truthy profile then AList.update ''AWS_PROFILE'' (the profile) e0 else e0);
          e2 = (if truthy region then AList.update ''AWS_REGION'' (the region) e1 else e1)
      in e2)"

definition fileNameOf :: "string \<Rightarrow> string" where
  "fileNameOf s3Uri = (if basename s3Uri \<noteq> [] then basename s3Uri else ''s3.csv'')"

definition tmpName :: "nat \<Rightarrow> string \<Rightarrow> string" where
  "tmpName t s3Uri = ''s3-csv-viewer-'' @ show_nat t @ ''-'' @ fileNameOf s3Uri"

definition tmpPathOf :: "string \<Rightarrow> nat \<Rightarrow> string \<Rightarrow> string" where
  "tmpPathOf dir t s3Uri = path_join dir (tmpName t s3Uri)"

definition invalid_uri_error :: error where
  "invalid_uri_error = Error ''Please provide a valid S3 URI (e.g., s3://bucket/key.csv).''"

text \<open>\<open>fs.unlink\<close> inside \<open>try { ... } catch {}\<close>: a failure leaves the file system as it is.\<close>

definition unlink_quiet :: "world \<Rightarrow> string \<Rightarrow> filesystem \<Rightarrow> filesystem" where
  "unlink_quiet w p fs = (if unlink_fails w \<or> fs p = None then fs else fs(p := None))"

definition fetchCsvToTemp ::
    "world \<Rightarrow> string \<Rightarrow> string option \<Rightarrow> string option \<Rightarrow> filesystem
      \<Rightarrow> (error + string) option \<times> filesystem \<times> action list" where
  "fetchCsvToTemp w s3Uri profile region fs =
     (if s3Uri = [] \<or> \<not> startsWith s3Uri ''s3://'' then (Some (Inl invalid_uri_error), fs, [])
      else
        let envExtras = envExtrasOf profile region;
            tmpPath = tmpPathOf (tmpdir w) (now w) s3Uri
        in case awsS3CpToFile w s3Uri tmpPath envExtras fs of
             (None, fs1, tr) \<Rightarrow> (None, fs1, tr)
           | (Some (Inr u), fs1, tr) \<Rightarrow> (Some (Inr tmpPath), fs1, tr)
           | (Some (Inl e), fs1, tr) \<Rightarrow>
               (Some (Inl e), unlink_quiet w tmpPath fs1, tr @ [Unlink tmpPath]))"

section \<open>openCsvFromS3 and activate\<close>

record config =
  cfg_s3Uri :: "string option"
  cfg_awsProfile :: "string option"
  cfg_awsRegion :: "string option"
  cfg_autoOpenOnStartup :: "bool option"

text \<open>\<open>cfg.get<string>(key)?.trim() || ""\<close>.\<close>

definition trimmed_or_empty :: "string option \<Rightarrow> string" where
  "trimmed_or_empty v = (case v of None \<Rightarrow> [] | Some s \<Rightarrow> trim s)"

definition configuredUri :: "config \<Rightarrow> string" where
  "configuredUri cfg = trimmed_or_empty (cfg_s3Uri cfg)"

text \<open>
  \<open>uriFromInput || configuredUri || (await vscode.window.showInputBox(...))\<close>: the first
  operand that is not empty, or else what the input box gives, which is \<open>undefined\<close>
  when the user dismisses it. The input box is an awaited promise and may reject. Its
  \<open>validateInput\<close> option is the host's to enforce; what the box returns is left to the world.
\<close>

definition resolveUri ::
    "world \<Rightarrow> config \<Rightarrow> string option \<Rightarrow> (error + string option) \<times> action list" where
  "resolveUri w cfg uriFromInput =
     (if truthy uriFromInput then (Inr uriFromInput, [])
      else if configuredUri cfg \<noteq> [] then (Inr (Some (configuredUri cfg)), [])
      else (input_box w, [ShowInputBox]))"

text \<open>
  The statements of the \<open>try\<close> block after the download: open the document, show it,
  set its language to csv when it is another, and set the status bar message. The
  first component is the error thrown, if one is.
\<close>

definition showCsv :: "world \<Rightarrow> string \<Rightarrow> string \<Rightarrow> error option \<times> action list" where
  "showCsv w tmpPath s3Uri =
     (case open_document w of
        Inl e \<Rightarrow> (Some e, [OpenTextDocument tmpPath])
      | Inr languageId \<Rightarrow>
          (case show_document w of
             Some e \<Rightarrow> (Some e, [OpenTextDocument tmpPath, ShowTextDocument tmpPath])
           | None \<Rightarrow>
               if languageId \<noteq> ''csv'' then
                 (case set_language w of
                    Some e \<Rightarrow>
                      (Some e, [OpenTextDocument tmpPath, ShowTextDocument tmpPath,
                                SetTextDocumentLanguage ''csv''])
                  | None \<Rightarrow>
                      (None, [OpenTextDocument tmpPath, ShowTextDocument tmpPath,
                              SetTextDocumentLanguage ''csv'',
                              SetStatusBarMessage (''S3 CSV loaded: '' @ s3Uri) 5000]))
               else
                 (None, [OpenTextDocument tmpPath, ShowTextDocument tmpPath,
                         SetStatusBarMessage (''S3 CSV loaded: '' @ s3Uri) 5000])))"

definition load_failed :: "error \<Rightarrow> action" where
  "load_failed e = ShowErrorMessage (''Failed to load CSV. '' @ message e)"

definition openCsvFromS3 ::
    "world \<Rightarrow> config \<Rightarrow> string option \<Rightarrow> filesystem
      \<Rightarrow> (error + unit) option \<times> filesystem \<times> action list" where
  "openCsvFromS3 w cfg uriFromInput fs =
     (let profile = trimmed_or_empty (cfg_awsProfile cfg);
          region = trimmed_or_empty (cfg_awsRegion cfg)
      in case resolveUri w cfg uriFromInput of
           (Inl e, tr0) \<Rightarrow> (Some (Inl e), fs, tr0)
         | (Inr None, tr0) \<Rightarrow> (Some (Inr ()), fs, tr0)
         | (Inr (Some s3Uri), tr0) \<Rightarrow>
             if s3Uri = [] then (Some (Inr ()), fs, tr0)
             else
               (case fetchCsvToTemp w s3Uri (Some profile) (Some region) fs of
                  (None, fs1, tr1) \<Rightarrow> (None, fs1, tr0 @ tr1)
                | (Some (Inl e), fs1, tr1) \<Rightarrow> (Some (Inr ()), fs1, tr0 @ tr1 @ [load_failed e])
                | (Some (Inr tmpPath), fs1, tr1) \<Rightarrow>
                    (case showCsv w tmpPath s3Uri of
                       (Some e, tr2) \<Rightarrow> (Some (Inr ()), fs1, tr0 @ tr1 @ tr2 @ [load_failed e])
                     | (None, tr2) \<Rightarrow> (Some (Inr ()), fs1, tr0 @ tr1 @ tr2))))"

text \<open>\<open>promise.catch(() => {})\<close>: a rejection becomes a fulfilment.\<close>

definition catch_ignore :: "(error + unit) option \<Rightarrow> (error + unit) option" where
  "catch_ignore r = (case r of Some (Inl e) \<Rightarrow> Some (Inr ()) | _ \<Rightarrow> r)"

text \<open>
  \<open>activate\<close> registers the command and, when \<open>autoOpenOnStartup\<close> is set, starts
  \<open>openCsvFromS3(context)\<close> without awaiting it. The result is how the promise started
  at startup settles (fulfilled when none is started), the file system and what was done.
\<close>

definition activate ::
    "world \<Rightarrow> config \<Rightarrow> filesystem \<Rightarrow> (error + unit) option \<times> filesystem \<times> action list" where
  "activate w cfg fs =
     (if cfg_autoOpenOnStartup cfg = Some True then
        (case openCsvFromS3 w cfg None fs of
           (r, fs1, tr) \<Rightarrow>
             (catch_ignore r, fs1, RegisterCommand ''s3CsvViewer.openCsvFromS3'' # tr))
      else (Some (Inr ()), fs, [RegisterCommand ''s3CsvViewer.openCsvFromS3'']))"

section \<open>The bucket and file picker\<close>

text \<open>
  The variant of the extension that lets the user pick a bucket and a file:
  \<open>runAwsCli\<close>, \<open>openS3FileInEditor\<close> and \<open>pickAndOpenS3File\<close>. Its \<open>awsS3CpToFile\<close> is
  the one above.
\<close>

definition runAwsCli ::
    "world \<Rightarrow> string list \<Rightarrow> (string \<times> string) list \<Rightarrow> (error + string) \<times> action list" where
  "runAwsCli w args envExtras =
     ((case exec_file w args of
         ExecFailed msg stderr \<Rightarrow>
           Inl (Error (''AWS CLI error: '' @ msg @ CHR 0x0A # ''STDERR: '' @ stderr))
       | ExecOk stdout \<Rightarrow> Inr stdout),
      [ExecFile (awsCmd w) args (spread (process_env w) envExtras)])"

text \<open>
  Reading a property that is not built in: a \<open>TypeError\<close> on \<open>undefined\<close> and \<open>null\<close>, the
  value on an object that has it, \<open>undefined\<close> otherwise.
\<close>

fun get_prop :: "jsval \<Rightarrow> string \<Rightarrow> error + jsval" where
  "get_prop JUndefined k =
     Inl (TypeError (''Cannot read properties of undefined (reading '' @ k @ '')''))"
| "get_prop JNull k =
     Inl (TypeError (''Cannot read properties of null (reading '' @ k @ '')''))"
| "get_prop (JObj kvs) k = Inr (case map_of kvs k of None \<Rightarrow> JUndefined | Some v \<Rightarrow> v)"
| "get_prop v k = Inr JUndefined"

fun js_truthy :: "jsval \<Rightarrow> bool" where
  "js_truthy JUndefined = False"
| "js_truthy JNull = False"
| "js_truthy (JBool b) = b"
| "js_truthy (JNum n) = (n \<noteq> 0)"
| "js_truthy (JStr s) = (s \<noteq> [])"
| "js_truthy (JArr xs) = True"
| "js_truthy (JObj kvs) = True"

fun map_err :: "('a \<Rightarrow> error + 'b) \<Rightarrow> 'a list \<Rightarrow> error + 'b list" where
  "map_err f [] = Inr []"
| "map_err f (x # xs) =
     (case f x of
        Inl e \<Rightarrow> Inl e
      | Inr y \<Rightarrow> (case map_err f xs of Inl e \<Rightarrow> Inl e | Inr ys \<Rightarrow> Inr (y # ys)))"

text \<open>\<open>v.map(f)\<close>: only an array has \<open>map\<close>.\<close>

fun js_map :: "(jsval \<Rightarrow> error + jsval) \<Rightarrow> jsval \<Rightarrow> error + jsval list" where
  "js_map f (JArr xs) = map_err f xs"
| "js_map f JUndefined = Inl (TypeError ''Cannot read properties of undefined (reading map)'')"
| "js_map f JNull = Inl (TypeError ''Cannot read properties of null (reading map)'')"
| "js_map f v = Inl (TypeError ''map is not a function'')"

text \<open>
  The first query of \<open>pickAndOpenS3File\<close>: \<open>runAwsCli\<close>, \<open>JSON.parse\<close>, and
  \<open>dataBuckets.Buckets.map((b) => b.Name)\<close>.
\<close>

definition listBuckets ::
    "world \<Rightarrow> (string \<times> string) list \<Rightarrow> (error + jsval list) \<times> action list" where
  "listBuckets w env =
     (case runAwsCli w [''s3api'', ''list-buckets'', ''--output'', ''json''] env of
        (Inl e, tr) \<Rightarrow> (Inl e, tr)
      | (Inr rawBuckets, tr) \<Rightarrow>
          (case json_parse w rawBuckets of
             Inl e \<Rightarrow> (Inl e, tr)
           | Inr dataBuckets \<Rightarrow>
               (case get_prop dataBuckets ''Buckets'' of
                  Inl e \<Rightarrow> (Inl e, tr)
                | Inr bs \<Rightarrow> (js_map (\<lambda>b. get_prop b ''Name'') bs, tr))))"

text \<open>
  The second query: \<open>runAwsCli\<close>, \<open>JSON.parse\<close>, and
  \<open>(dataObjs.Contents || []).map((o) => o.Key)\<close>.
\<close>

definition listKeys ::
    "world \<Rightarrow> string \<Rightarrow> (string \<times> string) list \<Rightarrow> (error + jsval list) \<times> action list" where
  "listKeys w bucket env =
     (case runAwsCli w [''s3api'', ''list-objects-v2'', ''--bucket'', bucket, ''--output'', ''json''] env of
        (Inl e, tr) \<Rightarrow> (Inl e, tr)
      | (Inr rawObjs, tr) \<Rightarrow>
          (case json_parse w rawObjs of
             Inl e \<Rightarrow> (Inl e, tr)
           | Inr dataObjs \<Rightarrow>
               (case get_prop dataObjs ''Contents'' of
                  Inl e \<Rightarrow> (Inl e, tr)
                | Inr c \<Rightarrow>
                    (js_map (\<lambda>ob. get_prop ob ''Key'') (if js_truthy c then c else JArr []), tr))))"

definition viewerPathOf :: "string \<Rightarrow> nat \<Rightarrow> string \<Rightarrow> string" where
  "viewerPathOf dir t s3Uri = path_join dir (''s3-viewer-'' @ show_nat t @ ''-'' @ basename s3Uri)"

definition openS3FileInEditor ::
    "world \<Rightarrow> string \<Rightarrow> string option \<Rightarrow> string option \<Rightarrow> filesystem
      \<Rightarrow> (error + unit) option \<times> filesystem \<times> action list" where
  "openS3FileInEditor w s3Uri profile region fs =
     (let envExtras = envExtrasOf profile region;
          tmpPath = viewerPathOf (tmpdir w) (now w) s3Uri
      in case awsS3CpToFile w s3Uri tmpPath envExtras fs of
           (None, fs1, tr) \<Rightarrow> (None, fs1, tr)
         | (Some (Inl e), fs1, tr) \<Rightarrow> (Some (Inl e), fs1, tr)
         | (Some (Inr u), fs1, tr) \<Rightarrow>
             (case open_document w of
                Inl e \<Rightarrow> (Some (Inl e), fs1, tr @ [OpenTextDocument tmpPath])
              | Inr languageId \<Rightarrow>
                  (case show_document w of
                     Some e \<Rightarrow>
                       (Some (Inl e), fs1, tr @ [OpenTextDocument tmpPath, ShowTextDocument tmpPath])
                   | None \<Rightarrow>
                       (Some (Inr ()), fs1,
                        tr @ [OpenTextDocument tmpPath, ShowTextDocument tmpPath,
                              SetStatusBarMessage (''S3 File loaded: '' @ s3Uri) 5000]))))"

definition pick_failed :: "error \<Rightarrow> action" where
  "pick_failed e = ShowErrorMessage (''Error: '' @ message e)"

text \<open>
  The result is \<open>None\<close> when the call never returns, and \<open>Some ()\<close> otherwise: every error
  is caught and shown.
\<close>

definition pickAndOpenS3File ::
    "world \<Rightarrow> config \<Rightarrow> filesystem \<Rightarrow> unit option \<times> filesystem \<times> action list" where
  "pickAndOpenS3File w cfg fs =
     (let profile = map_option trim (cfg_awsProfile cfg);
          region = map_option trim (cfg_awsRegion cfg);
          env = envExtrasOf profile region
      in case listBuckets w env of
           (Inl e, tr1) \<Rightarrow> (Some (), fs, tr1 @ [pick_failed e])
         | (Inr buckets, tr1) \<Rightarrow>
             (let tr2 = tr1 @ [ShowQuickPick buckets ''Select an S3 bucket'']
              in case quick_pick w buckets ''Select an S3 bucket'' of
                   None \<Rightarrow> (Some (), fs, tr2)
                 | Some bucket \<Rightarrow>
                     if bucket = [] then (Some (), fs, tr2)
                     else
                       (case listKeys w bucket env of
                          (Inl e, tr3) \<Rightarrow> (Some (), fs, tr2 @ tr3 @ [pick_failed e])
                        | (Inr keys, tr3) \<Rightarrow>
                            (let tr4 = tr2 @ tr3 @ [ShowQuickPick keys (''Select file from '' @ bucket)]
                             in case quick_pick w keys (''Select file from '' @ bucket) of
                                  None \<Rightarrow> (Some (), fs, tr4)
                                | Some key \<Rightarrow>
                                    if key = [] then (Some (), fs, tr4)
                                    else
                                      (case openS3FileInEditor w
                                              (''s3://'' @ bucket @ ''/'' @ key) profile region fs of
                                         (None, fs1, tr5) \<Rightarrow> (None, fs1, tr4 @ tr5)
                                       | (Some (Inl e), fs1, tr5) \<Rightarrow>
                                           (Some (), fs1, tr4 @ tr5 @ [pick_failed e])
                                       | (Some (Inr u), fs1, tr5) \<Rightarrow>
                                           (Some (), fs1, tr4 @ tr5))))))"

section \<open>Observations\<close>

text \<open>
  Every operation returns its result, the file system it leaves and the list of what it
  did. The functions below read these, and pick from the list what a property is about.
\<close>

definition result_of :: "'a \<times> filesystem \<times> action list \<Rightarrow> 'a" where
  "result_of x = fst x"

definition files_of :: "'a \<times> filesystem \<times> action list \<Rightarrow> filesystem" where
  "files_of x = fst (snd x)"

definition trace_of :: "'a \<times> filesystem \<times> action list \<Rightarrow> action list" where
  "trace_of x = snd (snd x)"

fun created :: "action \<Rightarrow> string list" where
  "created (CreateWriteStream p) = [p]"
| "created a = []"

definition created_paths :: "action list \<Rightarrow> string list" where
  "created_paths tr = concat (map created tr)"

fun spawned :: "action \<Rightarrow> (string \<times> string list \<times> (string \<times> string) list) list" where
  "spawned (Spawn c as env) = [(c, as, env)]"
| "spawned a = []"

definition spawn_calls :: "action list \<Rightarrow> (string \<times> string list \<times> (string \<times> string) list) list" where
  "spawn_calls tr = concat (map spawned tr)"

fun executed :: "action \<Rightarrow> string list list" where
  "executed (ExecFile c as env) = [as]"
| "executed a = []"

definition exec_calls :: "action list \<Rightarrow> string list list" where
  "exec_calls tr = concat (map executed tr)"

text \<open>The environment of every subprocess started, by \<open>spawn\<close> or by \<open>execFile\<close>.\<close>

fun envs_of :: "action \<Rightarrow> (string \<times> string) list list" where
  "envs_of (Spawn c as env) = [env]"
| "envs_of (ExecFile c as env) = [env]"
| "envs_of a = []"

definition subprocess_envs :: "action list \<Rightarrow> (string \<times> string) list list" where
  "subprocess_envs tr = concat (map envs_of tr)"

fun is_message :: "action \<Rightarrow> bool" where
  "is_message (ShowErrorMessage m) = True"
| "is_message (SetStatusBarMessage m t) = True"
| "is_message a = False"

definition messages :: "action list \<Rightarrow> action list" where
  "messages tr = filter is_message tr"

text \<open>
  Events that never settle the promise; the exit code of the child among them (that of
  its first \<open>close\<close>); and the events with which the transfer fails after them: an error of
  the stream or of the child, or the run of the callback when the child has closed with
  an exit code other than 0.
\<close>

fun quiet :: "event \<Rightarrow> bool" where
  "quiet (StdoutData c) = True"
| "quiet (StderrData d) = True"
| "quiet (Close code) = True"
| "quiet ev = False"

fun exit_code :: "event list \<Rightarrow> int option option" where
  "exit_code [] = None"
| "exit_code (Close code # evs) = Some code"
| "exit_code (ev # evs) = exit_code evs"

fun failing :: "int option option \<Rightarrow> event \<Rightarrow> bool" where
  "failing c (OutError e) = True"
| "failing c (ChildError e) = True"
| "failing c OutClosed = (c \<noteq> None \<and> c \<noteq> Some (Some 0))"
| "failing c ev = False"

fun stdout_chunks :: "event list \<Rightarrow> bytes list" where
  "stdout_chunks [] = []"
| "stdout_chunks (StdoutData c # evs) = c # stdout_chunks evs"
| "stdout_chunks (ev # evs) = stdout_chunks evs"

definition whitespace_only :: "string \<Rightarrow> bool" where
  "whitespace_only s = (s \<noteq> [] \<and> list_all is_ws s)"

text \<open>A path segment that \<open>path.join\<close> keeps as it is.\<close>

definition plain_segment :: "string \<Rightarrow> bool" where
  "plain_segment b = (b \<noteq> [] \<and> CHR ''/'' \<notin> set b \<and> b \<noteq> ''.'' \<and> b \<noteq> ''..'')"

section \<open>Sample worlds\<close>

text \<open>
  A world in which the child writes two chunks and exits with code 0, and variants of
  it. They are the concrete inputs at which the theorems below are instantiated.
\<close>

definition csv_chunk1 :: bytes where
  "csv_chunk1 = [0x61, 0x2C, 0x62, 0x0A]"

definition csv_chunk2 :: bytes where
  "csv_chunk2 = [0x31, 0x2C, 0x32, 0x0A]"

definition sample_world :: world where
  "sample_world =
     \<lparr>platform = ''linux'',
      process_env = [(''PATH'', ''/usr/bin'')],
      tmpdir = ''/tmp'',
      now = 1700000000000,
      open_error = None,
      events = [StdoutData csv_chunk1, StdoutData csv_chunk2, Close (Some 0), OutClosed],
      unlink_fails = False,
      input_box = Inr None,
      exec_file = (\<lambda>args. ExecOk ''{}''),
      json_parse = (\<lambda>s. Inr (JObj [])),
      quick_pick = (\<lambda>items placeHolder. None),
      open_document = Inr ''csv'',
      show_document = None,
      set_language = None\<rparr>"

definition sample_config :: config where
  "sample_config =
     \<lparr>cfg_s3Uri = Some ''s3://bucket1/data.csv'',
      cfg_awsProfile = Some ''dev'',
      cfg_awsRegion = None,
      cfg_autoOpenOnStartup = Some True\<rparr>"

text \<open>
  The child writes a chunk and exits with code 2; the same when the file cannot be
  deleted; and a write to the file that fails after the child has closed with code 0,
  while the stream is still flushing what it was given.
\<close>

definition denied_world :: world where
  "denied_world =
     sample_world\<lparr>events := [StdoutData csv_chunk1, StderrData ''Access Denied'', Close (Some 2),
                              OutClosed]\<rparr>"

definition stuck_file_world :: world where
  "stuck_file_world = denied_world\<lparr>unlink_fails := True\<rparr>"

definition disk_full_world :: world where
  "disk_full_world =
     sample_world\<lparr>events := [StdoutData csv_chunk1, Close (Some 0),
                              OutError (Error ''ENOSPC: no space left on device, write''),
                              OutClosed]\<rparr>"

text \<open>
  A bucket without objects, an input box that rejects, and the answers of the two
  queries of the picker, without and with a chosen bucket.
\<close>

definition empty_bucket_world :: world where
  "empty_bucket_world =
     sample_world\<lparr>exec_file := (\<lambda>args. ExecOk ''{ RequestCharged: null }''),
                  json_parse := (\<lambda>s. Inr (JObj [(''RequestCharged'', JNull)]))\<rparr>"

definition rejecting_world :: world where
  "rejecting_world = sample_world\<lparr>input_box := Inl (Error ''Canceled'')\<rparr>"

definition picker_world :: world where
  "picker_world =
     sample_world\<lparr>json_parse :=
       (\<lambda>s. Inr (JObj [(''Buckets'', JArr [JObj [(''Name'', JStr ''a'')], JObj [(''Name'', JStr ''b'')]]),
                        (''Contents'', JArr [JObj [(''Key'', JStr ''x.csv'')]])]))\<rparr>"

definition bucket_chosen_world :: world where
  "bucket_chosen_world =
     picker_world\<lparr>quick_pick :=
       (\<lambda>items placeHolder. if placeHolder = ''Select an S3 bucket'' then Some ''b'' else None)\<rparr>"

text \<open>
  A blank profile setting, and a user who picks the bucket \<open>b\<close> and the file \<open>x.csv\<close>.
\<close>

definition blank_config :: config where
  "blank_config = sample_config\<lparr>cfg_awsProfile := Some ''  ''\<rparr>"

definition file_chosen_world :: world where
  "file_chosen_world =
     picker_world\<lparr>quick_pick :=
       (\<lambda>items placeHolder. if placeHolder = ''Select an S3 bucket'' then Some ''b'' else Some ''x.csv'')\<rparr>"

section \<open>Notions used in the proofs\<close>

text \<open>
  The directory part that \<open>path.join\<close> puts before a plain last segment, the reading of
  a decimal numeral, and the state of a transfer after events that settle nothing.
\<close>

definition dir_prefix :: "string \<Rightarrow> string" where
  "dir_prefix a =
     (if a = [] then []
      else (if hd a = CHR ''/'' then ''/'' else []) @
           (let rs = foldl (norm_step (hd a \<noteq> CHR ''/'')) [] (split_slash a)
            in if rs = [] then [] else join_slash rs @ ''/''))"

definition digit_val :: "char \<Rightarrow> nat" where
  "digit_val c = of_char c - 48"

definition read_nat :: "string \<Rightarrow> nat" where
  "read_nat s = foldl (\<lambda>acc c. 10 * acc + digit_val c) 0 s"

text \<open>The operand that \<open>uriFromInput || configuredUri || (await showInputBox(...))\<close> yields.\<close>

definition chosen :: "world \<Rightarrow> config \<Rightarrow> string option \<Rightarrow> string option" where
  "chosen w cfg uriFromInput =
     (if truthy uriFromInput then uriFromInput
      else if configuredUri cfg \<noteq> [] then Some (configuredUri cfg)
      else (case input_box w of Inl e \<Rightarrow> None | Inr v \<Rightarrow> v))"

definition feed :: "string \<Rightarrow> event list \<Rightarrow> xfer \<Rightarrow> xfer" where
  "feed destPath evs st = foldl (\<lambda>s ev. fst (on_event destPath ev s)) st evs"

section \<open>Locators and paths\<close>

lemma split_slash_nonempty: "split_slash p \<noteq> []"
  by (induction p) (auto split: list.splits)

lemma split_slash_append: "split_slash (a @ CHR ''/'' # b) = split_slash a @ split_slash b"
  by (induction a) (auto split: list.splits simp: split_slash_nonempty)

lemma split_slash_plain: "CHR ''/'' \<notin> set b \<Longrightarrow> split_slash b = [b]"
  by (induction b) auto

lemma norm_step_plain: "plain_segment b \<Longrightarrow> norm_step ab res b = res @ [b]"
  by (auto simp: norm_step_def plain_segment_def)

lemma join_slash_snoc: "join_slash (rs @ [b]) = (if rs = [] then b else join_slash rs @ CHR ''/'' # b)"
  by (induction rs rule: join_slash.induct) auto
lemma startsWith_s3_Cons: "startsWith s ''s3://'' \<Longrightarrow> \<exists>t. s = ''s3://'' @ t"
  unfolding startsWith_def by (metis append_take_drop_id)

lemma startsWith_s3_nonempty: "startsWith s ''s3://'' \<Longrightarrow> s \<noteq> []"
  using startsWith_s3_Cons by fastforce

lemma normalizeString_plain:
  assumes "plain_segment b"
  shows "normalizeString b ab = b"
proof -
  from assms have ns: "CHR ''/'' \<notin> set b" by (simp add: plain_segment_def)
  show ?thesis
    by (simp add: normalizeString_def split_slash_plain[OF ns] norm_step_plain[OF assms])
qed

lemma normalizeString_join:
  assumes "plain_segment b"
  shows "normalizeString (a @ CHR ''/'' # b) ab =
         join_slash (foldl (norm_step ab) [] (split_slash a) @ [b])"
proof -
  from assms have ns: "CHR ''/'' \<notin> set b" by (simp add: plain_segment_def)
  show ?thesis
    by (simp add: normalizeString_def split_slash_append split_slash_plain[OF ns]
        norm_step_plain[OF assms])
qed

lemma plain_segment_ends:
  assumes "plain_segment b"
  shows "b \<noteq> []" and "hd b \<noteq> CHR ''/''" and "last b \<noteq> CHR ''/''"
proof -
  from assms show nb: "b \<noteq> []" by (simp add: plain_segment_def)
  from assms have ns: "CHR ''/'' \<notin> set b" by (simp add: plain_segment_def)
  from nb ns show "hd b \<noteq> CHR ''/''" by (metis hd_in_set)
  from nb ns show "last b \<noteq> CHR ''/''" by (metis last_in_set)
qed

lemma path_normalize_plain:
  assumes "plain_segment b"
  shows "path_normalize b = b"
  using plain_segment_ends[OF assms]
  by (simp add: path_normalize_def normalizeString_plain[OF assms])

lemma path_normalize_join:
  assumes "plain_segment b" and "a \<noteq> []"
  shows "path_normalize (a @ CHR ''/'' # b) = dir_prefix a @ b"
proof -
  let ?rs = "foldl (norm_step (hd a \<noteq> CHR ''/'')) [] (split_slash a)"
  have hd: "hd (a @ CHR ''/'' # b) = hd a" using assms(2) by simp
  have la: "last (a @ CHR ''/'' # b) = last b" using plain_segment_ends(1)[OF assms(1)] by simp
  have q: "normalizeString (a @ CHR ''/'' # b) (hd a \<noteq> CHR ''/'') = join_slash (?rs @ [b])"
    by (rule normalizeString_join[OF assms(1)])
  have qne: "join_slash (?rs @ [b]) \<noteq> []"
    using plain_segment_ends(1)[OF assms(1)] by (simp add: join_slash_snoc)
  have "path_normalize (a @ CHR ''/'' # b) =
          (if hd a = CHR ''/'' then ''/'' else []) @ join_slash (?rs @ [b])"
    unfolding path_normalize_def Let_def hd la q
    using qne plain_segment_ends(3)[OF assms(1)] by simp
  also have "\<dots> = dir_prefix a @ b"
    using assms(2) by (simp add: dir_prefix_def Let_def join_slash_snoc)
  finally show ?thesis .
qed

lemma path_join_plain:
  assumes "plain_segment b"
  shows "path_join a b = dir_prefix a @ b"
proof (cases "a = []")
  case True
  then show ?thesis
    using plain_segment_ends(1)[OF assms] path_normalize_plain[OF assms]
    by (simp add: path_join_def dir_prefix_def)
next
  case False
  then show ?thesis
    using plain_segment_ends(1)[OF assms] path_normalize_join[OF assms False]
    by (simp add: path_join_def)
qed

lemma dir_prefix_ends: "dir_prefix a = [] \<or> last (dir_prefix a) = CHR ''/''"
  by (simp add: dir_prefix_def Let_def)

lemma basename_after_dir:
  assumes "b \<noteq> []" and "CHR ''/'' \<notin> set b" and "d = [] \<or> last d = CHR ''/''"
  shows "basename (d @ b) = b"
proof -
  have all: "\<forall>x\<in>set (rev b). x \<noteq> CHR ''/''" using assms(2) by auto
  from assms(1) obtain c cs where rb: "rev b = c # cs" by (cases "rev b") auto
  with all have "c \<noteq> CHR ''/''" by auto
  with rb have dw: "dropWhile (\<lambda>c. c = CHR ''/'') (rev b @ rev d) = rev b @ rev d" by simp
  have "takeWhile (\<lambda>c. c \<noteq> CHR ''/'') (rev d) = []"
  proof (cases "d = []")
    case True then show ?thesis by simp
  next
    case False
    with assms(3) have "hd (rev d) = CHR ''/''" by (simp add: hd_rev)
    with False show ?thesis by (cases "rev d") auto
  qed
  with all have tw: "takeWhile (\<lambda>c. c \<noteq> CHR ''/'') (rev b @ rev d) = rev b"
    using takeWhile_append2[of "rev b" "\<lambda>c. c \<noteq> CHR ''/''" "rev d"] by simp
  show ?thesis by (simp add: basename_def dw tw)
qed

lemma basename_path_join:
  assumes "plain_segment b"
  shows "basename (path_join a b) = b"
proof -
  from assms have "b \<noteq> []" and "CHR ''/'' \<notin> set b" by (simp_all add: plain_segment_def)
  then show ?thesis
    using basename_after_dir[of b "dir_prefix a"] dir_prefix_ends[of a]
    by (simp add: path_join_plain[OF assms])
qed

lemma basename_no_slash: "CHR ''/'' \<notin> set (basename p)"
proof
  assume "CHR ''/'' \<in> set (basename p)"
  then have "CHR ''/'' \<in> set (takeWhile (\<lambda>c. c \<noteq> CHR ''/'') (dropWhile (\<lambda>c. c = CHR ''/'') (rev p)))"
    by (simp add: basename_def)
  then show False using set_takeWhileD by fastforce
qed

lemma digit_char_digit: "digit_char d \<in> set ''0123456789''"
  unfolding digit_char_def by (rule nth_mem) simp

lemma show_nat_digits: "set (show_nat n) \<subseteq> set ''0123456789''"
proof (induction n rule: show_nat.induct)
  case (1 n)
  show ?case
  proof (cases "n < 10")
    case True
    then show ?thesis using digit_char_digit[of n] by (subst show_nat.simps) simp
  next
    case False
    then show ?thesis using 1 digit_char_digit[of "n mod 10"]
      by (subst show_nat.simps) simp
  qed
qed

lemma show_nat_no_slash: "CHR ''/'' \<notin> set (show_nat n)"
  using show_nat_digits[of n] by auto

lemma show_nat_no_dash: "CHR ''-'' \<notin> set (show_nat n)"
  using show_nat_digits[of n] by auto

lemma digit_val_digit_char: "d < 10 \<Longrightarrow> digit_val (digit_char d) = d"
proof -
  assume "d < 10"
  then have "d \<in> {0,1,2,3,4,5,6,7,8,9}" by auto
  then show ?thesis by (auto simp: digit_val_def digit_char_def)
qed

lemma read_show_nat: "read_nat (show_nat n) = n"
proof (induction n rule: show_nat.induct)
  case (1 n)
  show ?case
  proof (cases "n < 10")
    case True
    then show ?thesis
      by (subst show_nat.simps) (simp add: read_nat_def digit_val_digit_char)
  next
    case False
    with 1 have ih: "read_nat (show_nat (n div 10)) = n div 10" by simp
    have "read_nat (show_nat n) = 10 * read_nat (show_nat (n div 10)) + digit_val (digit_char (n mod 10))"
      using False by (subst show_nat.simps) (simp add: read_nat_def)
    also have "\<dots> = 10 * (n div 10) + n mod 10"
      by (simp add: ih digit_val_digit_char)
    finally show ?thesis by simp
  qed
qed

lemma show_nat_inj: "show_nat m = show_nat n \<Longrightarrow> m = n"
  by (metis read_show_nat)

lemma fileNameOf_plain: "fileNameOf u \<noteq> []" "CHR ''/'' \<notin> set (fileNameOf u)"
  using basename_no_slash[of u] by (auto simp: fileNameOf_def)

lemma tmpName_plain: "plain_segment (tmpName t u)"
  using show_nat_no_slash[of t] fileNameOf_plain(2)[of u]
  by (auto simp: plain_segment_def tmpName_def)

lemma stamp_inj:
  assumes "show_nat t1 @ CHR ''-'' # f1 = show_nat t2 @ CHR ''-'' # f2"
  shows "t1 = t2 \<and> f1 = f2"
proof -
  have tw: "takeWhile (\<lambda>c. c \<noteq> CHR ''-'') (show_nat t @ CHR ''-'' # f) = show_nat t" for t f
  proof -
    have "\<forall>x\<in>set (show_nat t). x \<noteq> CHR ''-''" using show_nat_no_dash[of t] by auto
    then show ?thesis
      using takeWhile_append2[of "show_nat t" "\<lambda>c. c \<noteq> CHR ''-''" "CHR ''-'' # f"] by simp
  qed
  from assms have "show_nat t1 = show_nat t2" by (metis tw)
  with assms show ?thesis using show_nat_inj by auto
qed

lemma tmpName_inj: "tmpName t1 u1 = tmpName t2 u2 \<longleftrightarrow> t1 = t2 \<and> fileNameOf u1 = fileNameOf u2"
  using stamp_inj[of t1 "fileNameOf u1" t2 "fileNameOf u2"] by (auto simp: tmpName_def)

lemma tmpPathOf_inj:
  "tmpPathOf d t1 u1 = tmpPathOf d t2 u2 \<longleftrightarrow> t1 = t2 \<and> fileNameOf u1 = fileNameOf u2"
proof
  assume "tmpPathOf d t1 u1 = tmpPathOf d t2 u2"
  then have "basename (path_join d (tmpName t1 u1)) = basename (path_join d (tmpName t2 u2))"
    by (simp add: tmpPathOf_def)
  then have "tmpName t1 u1 = tmpName t2 u2"
    by (simp add: basename_path_join tmpName_plain)
  then show "t1 = t2 \<and> fileNameOf u1 = fileNameOf u2" by (simp add: tmpName_inj)
next
  assume "t1 = t2 \<and> fileNameOf u1 = fileNameOf u2"
  then show "tmpPathOf d t1 u1 = tmpPathOf d t2 u2" by (simp add: tmpPathOf_def tmpName_def)
qed

section \<open>The transfer\<close>

lemma feed_Nil: "feed d [] st = st"
  by (simp add: feed_def)

lemma feed_Cons: "feed d (ev # evs) st = feed d evs (fst (on_event d ev st))"
  by (simp add: feed_def)

lemma on_event_quiet: "quiet ev \<Longrightarrow> snd (on_event d ev st) = None"
  by (cases ev) (auto split: option.splits)

lemma run_events_quiet:
  "list_all quiet pre \<Longrightarrow> run_events d (pre @ evs) st = run_events d evs (feed d pre st)"
proof (induction pre arbitrary: st)
  case Nil
  then show ?case by (simp add: feed_Nil)
next
  case (Cons ev pre)
  then have "snd (on_event d ev st) = None" by (simp add: on_event_quiet)
  then have "run_events d ((ev # pre) @ evs) st = run_events d (pre @ evs) (fst (on_event d ev st))"
    by (cases "on_event d ev st") simp
  with Cons show ?case by (simp add: feed_Cons)
qed

lemma feed_acts: "list_all quiet pre \<Longrightarrow> acts (feed d pre st) = acts st"
proof (induction pre arbitrary: st)
  case Nil
  then show ?case by (simp add: feed_Nil)
next
  case (Cons ev pre)
  then have "acts (fst (on_event d ev st)) = acts st"
    by (cases ev) (auto split: option.splits)
  with Cons show ?case by (simp add: feed_Cons)
qed

lemma feed_closing:
  "list_all quiet pre \<Longrightarrow>
   closing (feed d pre st) = (case closing st of None \<Rightarrow> exit_code pre | Some c \<Rightarrow> Some c)"
proof (induction pre arbitrary: st)
  case Nil
  then show ?case by (simp add: feed_Nil split: option.splits)
next
  case (Cons ev pre)
  from Cons.prems have qp: "list_all quiet pre" by simp
  show ?case
  proof (cases ev)
    case (Close code)
    then show ?thesis using Cons.IH[OF qp, of "fst (on_event d ev st)"]
      by (simp add: feed_Cons split: option.splits)
  next
    case (StdoutData c)
    then show ?thesis using Cons.IH[OF qp, of "fst (on_event d ev st)"]
      by (simp add: feed_Cons split: option.splits)
  next
    case (StderrData s)
    then show ?thesis using Cons.IH[OF qp, of "fst (on_event d ev st)"]
      by (simp add: feed_Cons split: option.splits)
  qed (use Cons.prems in auto)
qed

lemma feed_files:
  "list_all quiet pre \<Longrightarrow> files st d = Some b
   \<Longrightarrow> files (feed d pre st) = (files st)(d \<mapsto> b @ concat (stdout_chunks pre))"
proof (induction pre arbitrary: st b)
  case Nil
  then show ?case by (auto simp: feed_Nil)
next
  case (Cons ev pre)
  let ?st = "fst (on_event d ev st)"
  from Cons.prems(1) have dp: "list_all quiet pre" by simp
  show ?case
  proof (cases ev)
    case (StdoutData c)
    have f: "files ?st = (files st)(d \<mapsto> b @ c)" using StdoutData Cons.prems(2) by simp
    then have fd: "files ?st d = Some (b @ c)" by simp
    have sc: "stdout_chunks (ev # pre) = c # stdout_chunks pre" using StdoutData by simp
    have "files (feed d pre ?st) = (files ?st)(d \<mapsto> (b @ c) @ concat (stdout_chunks pre))"
      by (rule Cons.IH[OF dp fd])
    also have "\<dots> = (files st)(d \<mapsto> b @ concat (stdout_chunks (ev # pre)))"
      by (simp only: f sc fun_upd_upd append_assoc concat.simps)
    finally show ?thesis by (simp only: feed_Cons)
  next
    case (StderrData s)
    have f: "files ?st = files st" using StderrData by simp
    then have fd: "files ?st d = Some b" using Cons.prems(2) by simp
    have sc: "stdout_chunks (ev # pre) = stdout_chunks pre" using StderrData by simp
    have "files (feed d pre ?st) = (files ?st)(d \<mapsto> b @ concat (stdout_chunks pre))"
      by (rule Cons.IH[OF dp fd])
    also have "\<dots> = (files st)(d \<mapsto> b @ concat (stdout_chunks (ev # pre)))"
      by (simp only: f sc)
    finally show ?thesis by (simp only: feed_Cons)
  next
    case (Close code)
    have f: "files ?st = files st" using Close by simp
    then have fd: "files ?st d = Some b" using Cons.prems(2) by simp
    have sc: "stdout_chunks (ev # pre) = stdout_chunks pre" using Close by simp
    have "files (feed d pre ?st) = (files ?st)(d \<mapsto> b @ concat (stdout_chunks pre))"
      by (rule Cons.IH[OF dp fd])
    also have "\<dots> = (files st)(d \<mapsto> b @ concat (stdout_chunks (ev # pre)))"
      by (simp only: f sc)
    finally show ?thesis by (simp only: feed_Cons)
  qed (use Cons.prems in auto)
qed

lemma run_events_success:
  assumes "list_all quiet pre" and "closing st = None" and "exit_code pre = Some (Some 0)"
  shows "run_events d (pre @ OutClosed # rest) st = (feed d pre st, Some (Inr ()))"
proof -
  have "closing (feed d pre st) = Some (Some 0)"
    using feed_closing[OF assms(1), of d st] assms(2,3) by simp
  then show ?thesis by (simp add: run_events_quiet[OF assms(1)])
qed

lemma run_events_failure:
  assumes "list_all quiet pre" and "closing st = None" and "failing (exit_code pre) ev"
  shows "\<exists>e st'. run_events d (pre @ ev # rest) st = (st', Some (Inl e))
                 \<and> files st' = files (feed d pre st)"
proof -
  have c: "closing (feed d pre st) = exit_code pre"
    using feed_closing[OF assms(1), of d st] assms(2) by simp
  show ?thesis
  proof (cases ev)
    case OutClosed
    with assms(3) obtain code where "exit_code pre = Some code" and "code \<noteq> Some 0" by auto
    with c OutClosed show ?thesis by (simp add: run_events_quiet[OF assms(1)])
  qed (use assms(3) in \<open>auto simp: run_events_quiet[OF assms(1)]\<close>)
qed

lemma run_events_acts:
  "acts (fst (run_events d evs st)) = acts st
   \<or> acts (fst (run_events d evs st)) = acts st @ [Kill ''SIGKILL'']"
proof (induction evs arbitrary: st)
  case Nil
  then show ?case by simp
next
  case (Cons ev evs)
  show ?case
  proof (cases ev)
    case (StdoutData c)
    then show ?thesis using Cons[of "fst (on_event d ev st)"] by (auto split: option.splits)
  next
    case (StderrData s)
    then show ?thesis using Cons[of "fst (on_event d ev st)"] by auto
  next
    case (Close code)
    then show ?thesis using Cons[of "fst (on_event d ev st)"] by auto
  next
    case OutClosed
    then show ?thesis using Cons[of st] by (auto split: option.splits)
  qed auto
qed

lemma awsS3CpToFile_success:
  assumes "open_error w = None" and "events w = pre @ OutClosed # rest"
    and "list_all quiet pre" and "exit_code pre = Some (Some 0)"
  shows "awsS3CpToFile w u d ex fs =
           (Some (Inr ()), fs(d \<mapsto> concat (stdout_chunks pre)),
            [Spawn (awsCmd w) (cp_args u) (spread (process_env w) ex), CreateWriteStream d])"
proof -
  let ?st0 = "\<lparr>files = fs(d \<mapsto> []), stderrBuf = [], closing = None,
               acts = [Spawn (awsCmd w) (cp_args u) (spread (process_env w) ex), CreateWriteStream d]\<rparr>"
  have "files (feed d pre ?st0) = (files ?st0)(d \<mapsto> [] @ concat (stdout_chunks pre))"
    by (rule feed_files[OF assms(3)]) simp
  then have f: "files (feed d pre ?st0) = fs(d \<mapsto> concat (stdout_chunks pre))" by simp
  have a: "acts (feed d pre ?st0) = acts ?st0" by (rule feed_acts[OF assms(3)])
  have r: "run_events d (pre @ OutClosed # rest) ?st0 = (feed d pre ?st0, Some (Inr ()))"
    by (rule run_events_success[OF assms(3) _ assms(4)]) simp
  show ?thesis
    unfolding awsS3CpToFile_def using assms(1,2) f a by (simp add: r)
qed

lemma awsS3CpToFile_trace:
  "trace_of (awsS3CpToFile w u d ex fs) =
     [Spawn (awsCmd w) (cp_args u) (spread (process_env w) ex), CreateWriteStream d]
   \<or> trace_of (awsS3CpToFile w u d ex fs) =
     [Spawn (awsCmd w) (cp_args u) (spread (process_env w) ex), CreateWriteStream d, Kill ''SIGKILL'']"
proof -
  let ?st0 = "\<lparr>files = (case open_error w of None \<Rightarrow> fs(d \<mapsto> []) | Some e \<Rightarrow> fs), stderrBuf = [],
               closing = None,
               acts = [Spawn (awsCmd w) (cp_args u) (spread (process_env w) ex), CreateWriteStream d]\<rparr>"
  let ?evs = "(case open_error w of None \<Rightarrow> events w | Some e \<Rightarrow> OutError e # events w)"
  have t: "trace_of (awsS3CpToFile w u d ex fs) = acts (fst (run_events d ?evs ?st0))"
    by (simp add: awsS3CpToFile_def trace_of_def Let_def split: prod.splits)
  show ?thesis using run_events_acts[of d ?evs ?st0] unfolding t by simp
qed

lemma awsS3CpToFile_failure:
  assumes "open_error w \<noteq> None
           \<or> (events w = pre @ ev # rest \<and> list_all quiet pre \<and> failing (exit_code pre) ev)"
  shows "\<exists>e. result_of (awsS3CpToFile w u d ex fs) = Some (Inl e)"
proof (cases "open_error w")
  case (Some e)
  then show ?thesis by (simp add: awsS3CpToFile_def result_of_def)
next
  case None
  with assms have ev: "events w = pre @ ev # rest" and q: "list_all quiet pre"
    and f: "failing (exit_code pre) ev" by auto
  let ?st0 = "\<lparr>files = fs(d \<mapsto> []), stderrBuf = [], closing = None,
               acts = [Spawn (awsCmd w) (cp_args u) (spread (process_env w) ex), CreateWriteStream d]\<rparr>"
  have "closing ?st0 = None" by simp
  from run_events_failure[OF q this f, of d rest]
  obtain e st' where "run_events d (pre @ ev # rest) ?st0 = (st', Some (Inl e))" by blast
  then show ?thesis using None ev by (simp add: awsS3CpToFile_def result_of_def)
qed

lemma awsS3CpToFile_partial:
  assumes "open_error w = None" and "events w = pre @ ev # rest" and "list_all quiet pre"
    and "failing (exit_code pre) ev"
  shows "files_of (awsS3CpToFile w u d ex fs) = fs(d \<mapsto> concat (stdout_chunks pre))"
proof -
  let ?st0 = "\<lparr>files = fs(d \<mapsto> []), stderrBuf = [], closing = None,
               acts = [Spawn (awsCmd w) (cp_args u) (spread (process_env w) ex), CreateWriteStream d]\<rparr>"
  have "closing ?st0 = None" by simp
  from run_events_failure[OF assms(3) this assms(4), of d rest]
  obtain e st' where r: "run_events d (pre @ ev # rest) ?st0 = (st', Some (Inl e))"
    and f: "files st' = files (feed d pre ?st0)" by blast
  have "files (feed d pre ?st0) = (files ?st0)(d \<mapsto> [] @ concat (stdout_chunks pre))"
    by (rule feed_files[OF assms(3)]) simp
  with f have "files st' = fs(d \<mapsto> concat (stdout_chunks pre))" by simp
  then show ?thesis using assms(1,2) r by (simp add: awsS3CpToFile_def files_of_def)
qed

lemma fetchCsvToTemp_on_failure:
  assumes "startsWith u ''s3://''"
    and "result_of (awsS3CpToFile w u (tmpPathOf (tmpdir w) (now w) u) (envExtrasOf p r) fs) = Some (Inl e)"
  shows "fetchCsvToTemp w u p r fs =
           (Some (Inl e),
            unlink_quiet w (tmpPathOf (tmpdir w) (now w) u)
              (files_of (awsS3CpToFile w u (tmpPathOf (tmpdir w) (now w) u) (envExtrasOf p r) fs)),
            trace_of (awsS3CpToFile w u (tmpPathOf (tmpdir w) (now w) u) (envExtrasOf p r) fs)
              @ [Unlink (tmpPathOf (tmpdir w) (now w) u)])"
proof -
  from assms(1) have ne: "u \<noteq> []" using startsWith_s3_nonempty by blast
  obtain x fs1 tr where a: "awsS3CpToFile w u (tmpPathOf (tmpdir w) (now w) u) (envExtrasOf p r) fs = (x, fs1, tr)"
    by (cases "awsS3CpToFile w u (tmpPathOf (tmpdir w) (now w) u) (envExtrasOf p r) fs") auto
  with assms(2) have x: "x = Some (Inl e)" by (simp add: result_of_def)
  show ?thesis using assms(1) ne a x
    by (simp add: fetchCsvToTemp_def files_of_def trace_of_def Let_def)
qed

lemma fetchCsvToTemp_on_success:
  assumes "startsWith u ''s3://''"
    and "awsS3CpToFile w u (tmpPathOf (tmpdir w) (now w) u) (envExtrasOf p r) fs = (Some (Inr ()), fs1, tr)"
  shows "fetchCsvToTemp w u p r fs = (Some (Inr (tmpPathOf (tmpdir w) (now w) u)), fs1, tr)"
proof -
  from assms(1) have ne: "u \<noteq> []" using startsWith_s3_nonempty by blast
  show ?thesis using assms ne by (simp add: fetchCsvToTemp_def Let_def)
qed

section \<open>Validation of the locator\<close>

lemma whitespace_only_not_s3: "whitespace_only s \<Longrightarrow> \<not> startsWith s ''s3://''"
proof
  assume ws: "whitespace_only s" and st: "startsWith s ''s3://''"
  from st obtain t where "s = ''s3://'' @ t" using startsWith_s3_Cons by blast
  then have "CHR ''s'' \<in> set s" by simp
  with ws have "is_ws CHR ''s''" by (simp add: whitespace_only_def list_all_iff)
  then show False by (simp add: is_ws_def)
qed

text \<open>
  C3. For every input string that is empty, consists of white space only, or does not
  start with \<open>s3://\<close>, \<open>fetchCsvToTemp\<close> fails with the validation error, leaves the file
  system as it is and does nothing else: no subprocess is spawned.
\<close>

theorem fetchCsvToTemp_rejects_invalid_locator:
  assumes "s3Uri = [] \<or> whitespace_only s3Uri \<or> \<not> startsWith s3Uri ''s3://''"
  shows "fetchCsvToTemp w s3Uri profile region fs = (Some (Inl invalid_uri_error), fs, [])"
proof -
  from assms have "s3Uri = [] \<or> \<not> startsWith s3Uri ''s3://''"
    using whitespace_only_not_s3 by blast
  then show ?thesis by (simp add: fetchCsvToTemp_def)
qed

theorem fetchCsvToTemp_rejects_invalid_locator_witness:
  "whitespace_only ''  '' \<and> \<not> startsWith ''not-a-locator'' ''s3://''
   \<and> fetchCsvToTemp sample_world [] None None Map.empty
       = (Some (Inl invalid_uri_error), Map.empty, [])
   \<and> fetchCsvToTemp sample_world ''  '' None None Map.empty
       = (Some (Inl invalid_uri_error), Map.empty, [])
   \<and> spawn_calls (trace_of (fetchCsvToTemp sample_world ''not-a-locator'' None None Map.empty)) = []"
proof -
  have a: "whitespace_only ''  ''" by (simp add: whitespace_only_def is_ws_def)
  have b: "\<not> startsWith ''not-a-locator'' ''s3://''" by (simp add: startsWith_def)
  show ?thesis
    using a b fetchCsvToTemp_rejects_invalid_locator [of "[]" sample_world None None Map.empty]
      fetchCsvToTemp_rejects_invalid_locator [of "''  ''" sample_world None None Map.empty]
      fetchCsvToTemp_rejects_invalid_locator [of "''not-a-locator''" sample_world None None Map.empty]
    by (simp add: trace_of_def spawn_calls_def)
qed

section \<open>Cleanup after a failed transfer, and the content after a successful one\<close>

lemmas path_eval =
  tmpPathOf_def tmpName_def fileNameOf_def basename_def path_join_def path_normalize_def
  normalizeString_def norm_step_def show_nat.simps digit_char_def

lemmas fetch_eval =
  fetchCsvToTemp_def awsS3CpToFile_def startsWith_def envExtrasOf_def truthy_def spread_def
  awsCmd_def cp_args_def unlink_quiet_def show_int_def trim_def is_ws_def
  result_of_def files_of_def trace_of_def Let_def show_nat.simps digit_char_def

lemma sample_path:
  "tmpPathOf ''/tmp'' 1700000000000 ''s3://bucket1/data.csv''
     = ''/tmp/s3-csv-viewer-1700000000000-data.csv''"
  by (simp add: path_eval)

lemma sample_path2:
  "tmpPathOf ''/tmp'' 1700000000000 ''s3://bucket2/data.csv''
     = ''/tmp/s3-csv-viewer-1700000000000-data.csv''"
  by (simp add: path_eval)

text \<open>
  C1 as stated fails: the child writes a chunk and exits with code 2, the deletion fails,
  and the partial file is still there when \<open>fetchCsvToTemp\<close> has thrown.
\<close>

theorem partial_file_remains_counterexample:
  "result_of (fetchCsvToTemp stuck_file_world ''s3://bucket1/data.csv'' None None Map.empty)
     = Some (Inl (Error ''AWS CLI exited with code 2: Access Denied''))
   \<and> files_of (fetchCsvToTemp stuck_file_world ''s3://bucket1/data.csv'' None None Map.empty)
         ''/tmp/s3-csv-viewer-1700000000000-data.csv'' = Some csv_chunk1"
  by (simp add: fetch_eval sample_path stuck_file_world_def denied_world_def sample_world_def)

text \<open>
  C1 (amended). When the transfer fails (the write stream cannot be opened, or what
  follows the data and the close of the child is an error of the stream, an error of the
  child, or the run of the callback of \<open>out.close\<close> with an exit code other than 0),
  \<open>fetchCsvToTemp\<close> throws the error of the transfer, and the last
  thing it does before is to try to delete the temporary path. When the deletion does not
  fail the path does not exist afterwards, whatever had been written; when it fails, the
  file system is as the transfer left it. What the transfer leaves at the path, when the
  stream had opened, is the chunks written before the failure.
\<close>

theorem fetchCsvToTemp_cleans_up_best_effort:
  fixes w :: world and s3Uri :: string
  defines "P \<equiv> tmpPathOf (tmpdir w) (now w) s3Uri"
  assumes "startsWith s3Uri ''s3://''"
    and "open_error w \<noteq> None
         \<or> (events w = pre @ ev # rest \<and> list_all quiet pre \<and> failing (exit_code pre) ev)"
  shows "\<exists>e. result_of (awsS3CpToFile w s3Uri P (envExtrasOf profile region) fs) = Some (Inl e)
           \<and> result_of (fetchCsvToTemp w s3Uri profile region fs) = Some (Inl e)
           \<and> last (trace_of (fetchCsvToTemp w s3Uri profile region fs)) = Unlink P
           \<and> (\<not> unlink_fails w \<longrightarrow> files_of (fetchCsvToTemp w s3Uri profile region fs) P = None)
           \<and> (unlink_fails w \<longrightarrow>
                files_of (fetchCsvToTemp w s3Uri profile region fs)
                  = files_of (awsS3CpToFile w s3Uri P (envExtrasOf profile region) fs))
           \<and> (open_error w = None \<longrightarrow>
                files_of (awsS3CpToFile w s3Uri P (envExtrasOf profile region) fs) P
                  = Some (concat (stdout_chunks pre)))"
proof -
  from awsS3CpToFile_failure[OF assms(3)]
  obtain e where e: "result_of (awsS3CpToFile w s3Uri P (envExtrasOf profile region) fs) = Some (Inl e)"
    by blast
  have part: "open_error w = None \<longrightarrow>
                files_of (awsS3CpToFile w s3Uri P (envExtrasOf profile region) fs) P
                  = Some (concat (stdout_chunks pre))"
  proof
    assume o: "open_error w = None"
    with assms(3) have "events w = pre @ ev # rest" and "list_all quiet pre"
      and "failing (exit_code pre) ev" by simp_all
    from awsS3CpToFile_partial[OF o this]
    show "files_of (awsS3CpToFile w s3Uri P (envExtrasOf profile region) fs) P
            = Some (concat (stdout_chunks pre))" by simp
  qed
  have f: "fetchCsvToTemp w s3Uri profile region fs =
             (Some (Inl e),
              unlink_quiet w P (files_of (awsS3CpToFile w s3Uri P (envExtrasOf profile region) fs)),
              trace_of (awsS3CpToFile w s3Uri P (envExtrasOf profile region) fs) @ [Unlink P])"
    using fetchCsvToTemp_on_failure[OF assms(2)] e unfolding P_def by blast
  have main: "result_of (fetchCsvToTemp w s3Uri profile region fs) = Some (Inl e)
        \<and> last (trace_of (fetchCsvToTemp w s3Uri profile region fs)) = Unlink P
        \<and> (\<not> unlink_fails w \<longrightarrow> files_of (fetchCsvToTemp w s3Uri profile region fs) P = None)
        \<and> (unlink_fails w \<longrightarrow>
                files_of (fetchCsvToTemp w s3Uri profile region fs)
                  = files_of (awsS3CpToFile w s3Uri P (envExtrasOf profile region) fs))"
    by (simp add: f result_of_def files_of_def trace_of_def unlink_quiet_def)
  show ?thesis
    apply (rule exI[of _ e])
    using e part main apply simp
    done
qed

theorem fetchCsvToTemp_cleans_up_best_effort_witness:
  "startsWith ''s3://bucket1/data.csv'' ''s3://''
   \<and> events denied_world
       = [StdoutData csv_chunk1, StderrData ''Access Denied'', Close (Some 2)] @ OutClosed # []
   \<and> failing (exit_code [StdoutData csv_chunk1, StderrData ''Access Denied'', Close (Some 2)]) OutClosed
   \<and> files_of (awsS3CpToFile denied_world ''s3://bucket1/data.csv''
                 ''/tmp/s3-csv-viewer-1700000000000-data.csv'' [] Map.empty)
         ''/tmp/s3-csv-viewer-1700000000000-data.csv'' = Some csv_chunk1
   \<and> files_of (fetchCsvToTemp denied_world ''s3://bucket1/data.csv'' None None Map.empty)
         ''/tmp/s3-csv-viewer-1700000000000-data.csv'' = None"
proof -
  let ?pre = "[StdoutData csv_chunk1, StderrData ''Access Denied'', Close (Some 2)]"
  have a: "startsWith ''s3://bucket1/data.csv'' ''s3://''" by (simp add: startsWith_def)
  have ev: "events denied_world = ?pre @ OutClosed # []"
    by (simp add: denied_world_def sample_world_def)
  have fl: "failing (exit_code ?pre) OutClosed" by simp
  have b: "open_error denied_world \<noteq> None \<or>
           (events denied_world = ?pre @ OutClosed # [] \<and> list_all quiet ?pre
            \<and> failing (exit_code ?pre) OutClosed)"
    using ev fl by simp
  have c: "\<not> unlink_fails denied_world" "tmpdir denied_world = ''/tmp''" "now denied_world = 1700000000000"
    by (simp_all add: denied_world_def sample_world_def)
  have d: "files_of (awsS3CpToFile denied_world ''s3://bucket1/data.csv''
                 ''/tmp/s3-csv-viewer-1700000000000-data.csv'' [] Map.empty)
         ''/tmp/s3-csv-viewer-1700000000000-data.csv'' = Some csv_chunk1"
    by (simp add: fetch_eval denied_world_def sample_world_def)
  from fetchCsvToTemp_cleans_up_best_effort[OF a b, of None None Map.empty]
  have "files_of (fetchCsvToTemp denied_world ''s3://bucket1/data.csv'' None None Map.empty)
         ''/tmp/s3-csv-viewer-1700000000000-data.csv'' = None"
    using c by (auto simp: sample_path)
  then show ?thesis using a ev fl d by simp
qed

text \<open>
  \<open>openS3FileInEditor\<close>, for comparison, awaits the same transfer without a \<open>catch\<close>: the
  partial file stays, also when it could be deleted.
\<close>

lemma openS3FileInEditor_keeps_partial_file:
  "result_of (openS3FileInEditor denied_world ''s3://bucket1/data.csv'' None None Map.empty)
     = Some (Inl (Error ''AWS CLI exited with code 2: Access Denied''))
   \<and> files_of (openS3FileInEditor denied_world ''s3://bucket1/data.csv'' None None Map.empty)
         ''/tmp/s3-viewer-1700000000000-data.csv'' = Some csv_chunk1"
  by (simp add: openS3FileInEditor_def viewerPathOf_def fetch_eval path_eval denied_world_def
      sample_world_def)

text \<open>
  C2 as stated fails: the child closes with exit code 0, but a write to the file fails
  before the write stream is closed; the call throws and the file is deleted.
\<close>

theorem sink_failure_after_exit_0_counterexample:
  "Close (Some 0) \<in> set (events disk_full_world)
   \<and> result_of (fetchCsvToTemp disk_full_world ''s3://bucket1/data.csv'' None None Map.empty)
       = Some (Inl (Error ''ENOSPC: no space left on device, write''))
   \<and> files_of (fetchCsvToTemp disk_full_world ''s3://bucket1/data.csv'' None None Map.empty)
         ''/tmp/s3-csv-viewer-1700000000000-data.csv'' = None"
  by (simp add: fetch_eval sample_path disk_full_world_def sample_world_def)

text \<open>
  C2 (amended). When the write stream opens, the child closes with exit code 0, and
  nothing but data and that close arrive before the callback of \<open>out.close\<close> runs (no
  error of the stream and none of the child), \<open>fetchCsvToTemp\<close> returns the temporary path,
  and the file there holds the concatenation, in order, of the chunks the child wrote to
  stdout; nothing else in the file system changes, and the call spawns one process and
  creates one file.
\<close>

theorem fetchCsvToTemp_success_content:
  assumes "startsWith s3Uri ''s3://''"
    and "open_error w = None"
    and "events w = pre @ OutClosed # rest"
    and "list_all quiet pre"
    and "exit_code pre = Some (Some 0)"
  shows "fetchCsvToTemp w s3Uri profile region fs =
           (Some (Inr (tmpPathOf (tmpdir w) (now w) s3Uri)),
            fs(tmpPathOf (tmpdir w) (now w) s3Uri \<mapsto> concat (stdout_chunks pre)),
            [Spawn (awsCmd w) (cp_args s3Uri) (spread (process_env w) (envExtrasOf profile region)),
             CreateWriteStream (tmpPathOf (tmpdir w) (now w) s3Uri)])"
proof -
  let ?P = "tmpPathOf (tmpdir w) (now w) s3Uri"
  have "awsS3CpToFile w s3Uri ?P (envExtrasOf profile region) fs =
          (Some (Inr ()), fs(?P \<mapsto> concat (stdout_chunks pre)),
           [Spawn (awsCmd w) (cp_args s3Uri) (spread (process_env w) (envExtrasOf profile region)),
            CreateWriteStream ?P])"
    using assms(2,3,4,5) by (rule awsS3CpToFile_success)
  with assms(1) show ?thesis by (rule fetchCsvToTemp_on_success)
qed

theorem fetchCsvToTemp_success_content_witness:
  "startsWith ''s3://bucket1/data.csv'' ''s3://''
   \<and> open_error sample_world = None
   \<and> events sample_world
       = [StdoutData csv_chunk1, StdoutData csv_chunk2, Close (Some 0)] @ OutClosed # []
   \<and> exit_code [StdoutData csv_chunk1, StdoutData csv_chunk2, Close (Some 0)] = Some (Some 0)
   \<and> result_of (fetchCsvToTemp sample_world ''s3://bucket1/data.csv'' None None Map.empty)
       = Some (Inr ''/tmp/s3-csv-viewer-1700000000000-data.csv'')
   \<and> files_of (fetchCsvToTemp sample_world ''s3://bucket1/data.csv'' None None Map.empty)
         ''/tmp/s3-csv-viewer-1700000000000-data.csv'' = Some (csv_chunk1 @ csv_chunk2)"
proof -
  let ?pre = "[StdoutData csv_chunk1, StdoutData csv_chunk2, Close (Some 0)]"
  have a: "startsWith ''s3://bucket1/data.csv'' ''s3://''" by (simp add: startsWith_def)
  have b: "open_error sample_world = None" by (simp add: sample_world_def)
  have c: "events sample_world = ?pre @ OutClosed # []" by (simp add: sample_world_def)
  have d: "list_all quiet ?pre" by simp
  have x: "exit_code ?pre = Some (Some 0)" by simp
  have e: "tmpdir sample_world = ''/tmp''" "now sample_world = 1700000000000"
    by (simp_all add: sample_world_def)
  from fetchCsvToTemp_success_content[OF a b c d x, of None None Map.empty]
  show ?thesis using a b c x by (simp add: e sample_path result_of_def files_of_def)
qed

lemma fetchCsvToTemp_trace:
  assumes "startsWith u ''s3://''"
  shows "\<exists>ks. trace_of (fetchCsvToTemp w u p r fs) =
           [Spawn (awsCmd w) (cp_args u) (spread (process_env w) (envExtrasOf p r)),
            CreateWriteStream (tmpPathOf (tmpdir w) (now w) u)] @ ks
         \<and> set ks \<subseteq> {Kill ''SIGKILL'', Unlink (tmpPathOf (tmpdir w) (now w) u)}"
proof -
  let ?P = "tmpPathOf (tmpdir w) (now w) u"
  let ?T = "awsS3CpToFile w u ?P (envExtrasOf p r) fs"
  from assms have ne: "u \<noteq> []" using startsWith_s3_nonempty by blast
  obtain x fs1 tr where a: "?T = (x, fs1, tr)" by (cases ?T) auto
  have t: "trace_of (fetchCsvToTemp w u p r fs) = tr \<or> trace_of (fetchCsvToTemp w u p r fs) = tr @ [Unlink ?P]"
    using assms ne a by (auto simp: fetchCsvToTemp_def trace_of_def Let_def split: option.splits sum.splits)
  from a have "trace_of ?T = tr" by (simp add: trace_of_def)
  with awsS3CpToFile_trace[of w u ?P "envExtrasOf p r" fs]
  have "tr = [Spawn (awsCmd w) (cp_args u) (spread (process_env w) (envExtrasOf p r)), CreateWriteStream ?P]
        \<or> tr = [Spawn (awsCmd w) (cp_args u) (spread (process_env w) (envExtrasOf p r)), CreateWriteStream ?P,
                 Kill ''SIGKILL'']" by simp
  with t show ?thesis by auto
qed

lemma created_paths_fetch:
  assumes "startsWith u ''s3://''"
  shows "created_paths (trace_of (fetchCsvToTemp w u p r fs)) = [tmpPathOf (tmpdir w) (now w) u]"
proof -
  from fetchCsvToTemp_trace[OF assms, of w p r fs] obtain ks where
    t: "trace_of (fetchCsvToTemp w u p r fs) =
           [Spawn (awsCmd w) (cp_args u) (spread (process_env w) (envExtrasOf p r)),
            CreateWriteStream (tmpPathOf (tmpdir w) (now w) u)] @ ks"
    and k: "set ks \<subseteq> {Kill ''SIGKILL'', Unlink (tmpPathOf (tmpdir w) (now w) u)}" by blast
  from k have "concat (map created ks) = []" by (induction ks) auto
  then show ?thesis by (simp add: t created_paths_def)
qed

lemma spawn_calls_fetch:
  assumes "startsWith u ''s3://''"
  shows "spawn_calls (trace_of (fetchCsvToTemp w u p r fs)) =
           [(awsCmd w, cp_args u, spread (process_env w) (envExtrasOf p r))]"
proof -
  from fetchCsvToTemp_trace[OF assms, of w p r fs] obtain ks where
    t: "trace_of (fetchCsvToTemp w u p r fs) =
           [Spawn (awsCmd w) (cp_args u) (spread (process_env w) (envExtrasOf p r)),
            CreateWriteStream (tmpPathOf (tmpdir w) (now w) u)] @ ks"
    and k: "set ks \<subseteq> {Kill ''SIGKILL'', Unlink (tmpPathOf (tmpdir w) (now w) u)}" by blast
  from k have "concat (map spawned ks) = []" by (induction ks) auto
  then show ?thesis by (simp add: t spawn_calls_def)
qed

text \<open>
  C6 as stated fails: two calls for different locators with the same basename, at the
  same reading of the clock, derive the same temporary path.
\<close>

theorem same_millisecond_same_path_counterexample:
  "''s3://bucket1/data.csv'' \<noteq> ''s3://bucket2/data.csv''
   \<and> result_of (fetchCsvToTemp sample_world ''s3://bucket1/data.csv'' None None Map.empty)
       = Some (Inr ''/tmp/s3-csv-viewer-1700000000000-data.csv'')
   \<and> result_of (fetchCsvToTemp sample_world ''s3://bucket2/data.csv'' None None Map.empty)
       = Some (Inr ''/tmp/s3-csv-viewer-1700000000000-data.csv'')"
  by (simp add: fetch_eval sample_path sample_path2 sample_world_def)

text \<open>
  C6 (amended). Two calls of \<open>fetchCsvToTemp\<close> with valid locators and the same temporary
  directory create the same temporary file exactly when they read the same millisecond
  from the clock and their file names (the basename of the locator, or the fallback)
  are equal. There is no random part in the name.
\<close>

theorem temp_paths_equal_iff:
  assumes "startsWith u1 ''s3://''" and "startsWith u2 ''s3://''" and "tmpdir w1 = tmpdir w2"
  shows "created_paths (trace_of (fetchCsvToTemp w1 u1 p1 r1 fs1))
           = created_paths (trace_of (fetchCsvToTemp w2 u2 p2 r2 fs2))
         \<longleftrightarrow> now w1 = now w2 \<and> fileNameOf u1 = fileNameOf u2"
  by (simp add: created_paths_fetch[OF assms(1)] created_paths_fetch[OF assms(2)] assms(3)
      tmpPathOf_inj)

theorem temp_paths_equal_iff_witness:
  "startsWith ''s3://bucket1/data.csv'' ''s3://'' \<and> startsWith ''s3://bucket1/other.csv'' ''s3://''
   \<and> tmpdir sample_world = tmpdir (sample_world\<lparr>now := 1700000000001\<rparr>)
   \<and> created_paths (trace_of (fetchCsvToTemp sample_world ''s3://bucket1/data.csv'' None None Map.empty))
       \<noteq> created_paths (trace_of (fetchCsvToTemp (sample_world\<lparr>now := 1700000000001\<rparr>)
                                      ''s3://bucket1/data.csv'' None None Map.empty))
   \<and> created_paths (trace_of (fetchCsvToTemp sample_world ''s3://bucket1/data.csv'' None None Map.empty))
       \<noteq> created_paths (trace_of (fetchCsvToTemp sample_world ''s3://bucket1/other.csv'' None None Map.empty))"
proof -
  have a: "startsWith ''s3://bucket1/data.csv'' ''s3://''" by (simp add: startsWith_def)
  have b: "startsWith ''s3://bucket1/other.csv'' ''s3://''" by (simp add: startsWith_def)
  have c: "tmpdir sample_world = tmpdir (sample_world\<lparr>now := 1700000000001\<rparr>)" by simp
  have d: "now sample_world \<noteq> now (sample_world\<lparr>now := 1700000000001\<rparr>)"
    by (simp add: sample_world_def)
  have e: "fileNameOf ''s3://bucket1/data.csv'' \<noteq> fileNameOf ''s3://bucket1/other.csv''"
    by (simp add: fileNameOf_def basename_def)
  show ?thesis
    using a b c d e
      temp_paths_equal_iff[OF a a c, of None None Map.empty None None Map.empty]
      temp_paths_equal_iff[OF a b refl, of sample_world None None Map.empty None None Map.empty]
    by simp
qed

section \<open>The temporary path\<close>

lemma basename_s3_nonempty:
  assumes "startsWith u ''s3://''"
  shows "basename u \<noteq> []"
proof -
  from assms obtain t where u: "u = ''s3://'' @ t" using startsWith_s3_Cons by blast
  let ?d = "dropWhile (\<lambda>c. c = CHR ''/'') (rev u)"
  have "CHR ''s'' \<in> set (rev u)" using u by simp
  then have "\<exists>x\<in>set (rev u). \<not> x = CHR ''/''" by (intro bexI[of _ "CHR ''s''"]) simp_all
  then have ne: "?d \<noteq> []" by (simp add: dropWhile_eq_Nil_conv)
  then have "\<not> hd ?d = CHR ''/''" by (rule hd_dropWhile)
  with ne have "takeWhile (\<lambda>c. c \<noteq> CHR ''/'') ?d \<noteq> []" by (cases ?d) auto
  then show ?thesis by (simp add: basename_def)
qed

lemma norm_step_nonempty:
  "\<forall>s\<in>set res. s \<noteq> [] \<Longrightarrow> \<forall>s\<in>set (norm_step ab res seg). s \<noteq> []"
  by (auto simp: norm_step_def dest: in_set_butlastD)

lemma foldl_norm_step_nonempty:
  "\<forall>s\<in>set res. s \<noteq> [] \<Longrightarrow> \<forall>s\<in>set (foldl (norm_step ab) res segs). s \<noteq> []"
proof (induction segs arbitrary: res)
  case Nil
  then show ?case by simp
next
  case (Cons seg segs)
  from norm_step_nonempty[OF Cons.prems] have "\<forall>s\<in>set (norm_step ab res seg). s \<noteq> []" .
  from Cons.IH[OF this] show ?case by simp
qed

lemma join_slash_Nil_iff: "\<forall>s\<in>set rs. s \<noteq> [] \<Longrightarrow> join_slash rs = [] \<longleftrightarrow> rs = []"
  by (induction rs rule: join_slash.induct) auto

lemma dir_prefix_normalised:
  assumes "hd d = CHR ''/''" and "path_normalize d = d"
  shows "dir_prefix d = d @ (if last d = CHR ''/'' then [] else ''/'')"
proof -
  define rs where "rs = foldl (norm_step False) [] (split_slash d)"
  define q where "q = join_slash rs"
  have dne: "d \<noteq> []" using assms(2) by (auto simp: path_normalize_def)
  have "\<forall>s\<in>set rs. s \<noteq> []" unfolding rs_def by (rule foldl_norm_step_nonempty) simp
  then have qrs: "q = [] \<longleftrightarrow> rs = []" unfolding q_def by (rule join_slash_Nil_iff)
  have dp: "dir_prefix d = CHR ''/'' # (if q = [] then [] else q @ ''/'')"
    using dne assms(1) by (simp add: dir_prefix_def Let_def rs_def[symmetric] q_def[symmetric] qrs)
  have pn: "path_normalize d =
              (if q = [] then ''/''
               else CHR ''/'' # q @ (if last d = CHR ''/'' then ''/'' else []))"
    using dne assms(1)
    by (simp add: path_normalize_def normalizeString_def Let_def rs_def[symmetric] q_def[symmetric])
  have nd: "(if q = [] then ''/''
               else CHR ''/'' # q @ (if last d = CHR ''/'' then ''/'' else [])) = d"
    using pn assms(2) by simp
  show ?thesis
  proof (cases "q = []")
    case True
    with nd have "''/'' = d" by simp
    then have "d @ (if last d = CHR ''/'' then [] else ''/'') = ''/''" by auto
    then show ?thesis using True dp by simp
  next
    case False
    show ?thesis
    proof (cases "last d = CHR ''/''")
      case True
      with nd False have "CHR ''/'' # q @ ''/'' = d" by simp
      then have "d @ (if last d = CHR ''/'' then [] else ''/'') = CHR ''/'' # q @ ''/''"
        using True by simp
      then show ?thesis using False dp by simp
    next
      case F: False
      with nd False have "CHR ''/'' # q = d" by simp
      then have "d @ (if last d = CHR ''/'' then [] else ''/'') = CHR ''/'' # q @ ''/''"
        using F by auto
      then show ?thesis using False dp by simp
    qed
  qed
qed

text \<open>
  C10. For a valid locator, the one file \<open>fetchCsvToTemp\<close> creates, which is the
  path it returns on success, is \<open>path.join\<close> of the temporary directory and the name
  \<open>s3-csv-viewer-<timestamp>-<name>\<close>, where \<open><name>\<close> is the basename of the locator when
  that is not empty and \<open>s3.csv\<close> otherwise. That name is the last segment of the path,
  and for an absolute normalised temporary directory the path is the directory, a
  slash, and the name.
\<close>

theorem temp_path_shape:
  fixes w :: world and s3Uri :: string
  defines "name \<equiv> ''s3-csv-viewer-'' @ show_nat (now w) @ ''-''
                    @ (if basename s3Uri \<noteq> [] then basename s3Uri else ''s3.csv'')"
  assumes "startsWith s3Uri ''s3://''"
  shows "created_paths (trace_of (fetchCsvToTemp w s3Uri profile region fs))
           = [path_join (tmpdir w) name]
         \<and> (\<forall>p. result_of (fetchCsvToTemp w s3Uri profile region fs) = Some (Inr p)
                \<longrightarrow> p = path_join (tmpdir w) name)
         \<and> basename (path_join (tmpdir w) name) = name
         \<and> (hd (tmpdir w) = CHR ''/'' \<and> path_normalize (tmpdir w) = tmpdir w
              \<longrightarrow> path_join (tmpdir w) name
                    = tmpdir w @ (if last (tmpdir w) = CHR ''/'' then [] else ''/'') @ name)"
proof -
  have n: "name = tmpName (now w) s3Uri" by (simp add: name_def tmpName_def fileNameOf_def)
  have pl: "plain_segment name" unfolding n by (rule tmpName_plain)
  have tp: "tmpPathOf (tmpdir w) (now w) s3Uri = path_join (tmpdir w) name"
    by (simp add: tmpPathOf_def n)
  from assms(2) have ne: "s3Uri \<noteq> []" using startsWith_s3_nonempty by blast
  have 1: "created_paths (trace_of (fetchCsvToTemp w s3Uri profile region fs)) = [path_join (tmpdir w) name]"
    using created_paths_fetch[OF assms(2), of w profile region fs] by (simp add: tp)
  have 2: "\<forall>p. result_of (fetchCsvToTemp w s3Uri profile region fs) = Some (Inr p)
                \<longrightarrow> p = path_join (tmpdir w) name"
    using assms(2) ne
    by (auto simp: fetchCsvToTemp_def result_of_def Let_def tp split: prod.splits option.splits sum.splits)
  have 3: "basename (path_join (tmpdir w) name) = name" by (rule basename_path_join[OF pl])
  have 4: "hd (tmpdir w) = CHR ''/'' \<and> path_normalize (tmpdir w) = tmpdir w
              \<longrightarrow> path_join (tmpdir w) name
                    = tmpdir w @ (if last (tmpdir w) = CHR ''/'' then [] else ''/'') @ name"
    using dir_prefix_normalised[of "tmpdir w"] by (simp add: path_join_plain[OF pl])
  from 1 2 3 4 show ?thesis by blast
qed

theorem temp_path_shape_witness:
  "startsWith ''s3://bucket1/data.csv'' ''s3://''
   \<and> hd (tmpdir sample_world) = CHR ''/'' \<and> path_normalize (tmpdir sample_world) = tmpdir sample_world
   \<and> result_of (fetchCsvToTemp sample_world ''s3://bucket1/data.csv'' None None Map.empty)
       = Some (Inr ''/tmp/s3-csv-viewer-1700000000000-data.csv'')
   \<and> created_paths (trace_of (fetchCsvToTemp sample_world ''s3://bucket1/data.csv'' None None Map.empty))
       = [''/tmp/s3-csv-viewer-1700000000000-data.csv'']"
proof -
  have a: "startsWith ''s3://bucket1/data.csv'' ''s3://''" by (simp add: startsWith_def)
  have b: "tmpdir sample_world = ''/tmp''" "now sample_world = 1700000000000"
    by (simp_all add: sample_world_def)
  have c: "path_normalize ''/tmp'' = ''/tmp''"
    by (simp add: path_normalize_def normalizeString_def norm_step_def)
  have d: "basename ''s3://bucket1/data.csv'' = ''data.csv''" by (simp add: basename_def)
  have e: "show_nat 1700000000000 = ''1700000000000''" by (simp add: show_nat.simps digit_char_def)
  have r: "result_of (fetchCsvToTemp sample_world ''s3://bucket1/data.csv'' None None Map.empty)
       = Some (Inr ''/tmp/s3-csv-viewer-1700000000000-data.csv'')"
    by (simp add: fetch_eval sample_path sample_world_def)
  have n: "''s3-csv-viewer-'' @ show_nat (now sample_world) @ ''-''
             @ (if basename ''s3://bucket1/data.csv'' \<noteq> [] then basename ''s3://bucket1/data.csv''
                else ''s3.csv'') = ''s3-csv-viewer-1700000000000-data.csv''"
    by (simp add: b d e)
  note t = temp_path_shape[OF a, of sample_world None None Map.empty, unfolded n]
  from t have 1: "created_paths (trace_of (fetchCsvToTemp sample_world ''s3://bucket1/data.csv'' None None
                     Map.empty)) = [path_join (tmpdir sample_world) ''s3-csv-viewer-1700000000000-data.csv'']"
    by (rule conjunct1)
  from t have "hd (tmpdir sample_world) = CHR ''/'' \<and> path_normalize (tmpdir sample_world) = tmpdir sample_world
      \<longrightarrow> path_join (tmpdir sample_world) ''s3-csv-viewer-1700000000000-data.csv''
            = tmpdir sample_world @ (if last (tmpdir sample_world) = CHR ''/'' then [] else ''/'')
                @ ''s3-csv-viewer-1700000000000-data.csv''"
    by (elim conjE)
  then have 2: "path_join (tmpdir sample_world) ''s3-csv-viewer-1700000000000-data.csv''
                  = ''/tmp/s3-csv-viewer-1700000000000-data.csv''"
    by (simp add: b c)
  have h: "hd (tmpdir sample_world) = CHR ''/'' \<and> path_normalize (tmpdir sample_world) = tmpdir sample_world"
    by (simp add: b c)
  show ?thesis using a h r 1 unfolding 2 by blast
qed

section \<open>The environment built by fetchCsvToTemp\<close>

lemma envExtrasOf_cases:
  "envExtrasOf profile region =
     (if truthy profile then [(''AWS_PROFILE'', the profile)] else [])
     @ (if truthy region then [(''AWS_REGION'', the region)] else [])"
  by (simp add: envExtrasOf_def Let_def)

lemma map_of_spread_envExtras:
  "map_of (spread a (envExtrasOf profile region)) = map_of a ++ map_of (envExtrasOf profile region)"
  by (auto simp: envExtrasOf_cases spread_def update_conv' fun_upd_twist)

text \<open>
  For a valid locator \<open>fetchCsvToTemp\<close> spawns one process, whose environment is the
  environment of the host overridden by \<open>envExtras\<close>. \<open>envExtras\<close> has the key AWS_PROFILE
  exactly when the \<open>profile\<close> argument is given and not empty, and then with that value;
  likewise AWS_REGION for the \<open>region\<close> argument; it has no other key.
\<close>

lemma fetchCsvToTemp_env_overrides:
  assumes "startsWith s3Uri ''s3://''"
  shows "spawn_calls (trace_of (fetchCsvToTemp w s3Uri profile region fs))
           = [(awsCmd w, cp_args s3Uri, spread (process_env w) (envExtrasOf profile region))]
         \<and> (''AWS_PROFILE'' \<in> fst ` set (envExtrasOf profile region)
              \<longleftrightarrow> (\<exists>v. profile = Some v \<and> v \<noteq> []))
         \<and> (''AWS_REGION'' \<in> fst ` set (envExtrasOf profile region)
              \<longleftrightarrow> (\<exists>v. region = Some v \<and> v \<noteq> []))
         \<and> map_of (envExtrasOf profile region) ''AWS_PROFILE'' = (if truthy profile then profile else None)
         \<and> map_of (envExtrasOf profile region) ''AWS_REGION'' = (if truthy region then region else None)
         \<and> fst ` set (envExtrasOf profile region) \<subseteq> {''AWS_PROFILE'', ''AWS_REGION''}
         \<and> map_of (spread (process_env w) (envExtrasOf profile region))
             = map_of (process_env w) ++ map_of (envExtrasOf profile region)"
proof -
  have 1: "spawn_calls (trace_of (fetchCsvToTemp w s3Uri profile region fs))
           = [(awsCmd w, cp_args s3Uri, spread (process_env w) (envExtrasOf profile region))]"
    by (rule spawn_calls_fetch[OF assms])
  have 2: "(''AWS_PROFILE'' \<in> fst ` set (envExtrasOf profile region)
              \<longleftrightarrow> (\<exists>v. profile = Some v \<and> v \<noteq> []))"
    by (cases profile; cases region) (auto simp: envExtrasOf_cases truthy_def)
  have 3: "(''AWS_REGION'' \<in> fst ` set (envExtrasOf profile region)
              \<longleftrightarrow> (\<exists>v. region = Some v \<and> v \<noteq> []))"
    by (cases profile; cases region) (auto simp: envExtrasOf_cases truthy_def)
  have 4: "map_of (envExtrasOf profile region) ''AWS_PROFILE'' = (if truthy profile then profile else None)"
    by (cases profile; cases region) (auto simp: envExtrasOf_cases truthy_def)
  have 5: "map_of (envExtrasOf profile region) ''AWS_REGION'' = (if truthy region then region else None)"
    by (cases profile; cases region) (auto simp: envExtrasOf_cases truthy_def)
  have 6: "fst ` set (envExtrasOf profile region) \<subseteq> {''AWS_PROFILE'', ''AWS_REGION''}"
    by (auto simp: envExtrasOf_cases)
  from 1 2 3 4 5 6 map_of_spread_envExtras[of "process_env w" profile region] show ?thesis by blast
qed

section \<open>Listing the keys of a bucket\<close>

text \<open>
  C9. When the list-objects query for a bucket succeeds and the decoded response is
  an object without \<open>Contents\<close>, or with an empty \<open>Contents\<close> array, the keys extracted are
  the empty list and no error is raised.
\<close>

theorem listKeys_empty_bucket:
  assumes "exec_file w [''s3api'', ''list-objects-v2'', ''--bucket'', bucket, ''--output'', ''json'']
             = ExecOk raw"
    and "json_parse w raw = Inr (JObj kvs)"
    and "map_of kvs ''Contents'' = None \<or> map_of kvs ''Contents'' = Some (JArr [])"
  shows "listKeys w bucket env =
           (Inr [], [ExecFile (awsCmd w)
                       [''s3api'', ''list-objects-v2'', ''--bucket'', bucket, ''--output'', ''json'']
                       (spread (process_env w) env)])"
  using assms by (auto simp: listKeys_def runAwsCli_def)

theorem listKeys_empty_bucket_witness:
  "exec_file empty_bucket_world [''s3api'', ''list-objects-v2'', ''--bucket'', ''b'', ''--output'', ''json'']
     = ExecOk ''{ RequestCharged: null }''
   \<and> json_parse empty_bucket_world ''{ RequestCharged: null }'' = Inr (JObj [(''RequestCharged'', JNull)])
   \<and> map_of [(''RequestCharged'', JNull)] ''Contents'' = None
   \<and> fst (listKeys empty_bucket_world ''b'' []) = Inr []"
proof -
  have a: "exec_file empty_bucket_world [''s3api'', ''list-objects-v2'', ''--bucket'', ''b'', ''--output'', ''json'']
     = ExecOk ''{ RequestCharged: null }''"
    by (simp add: empty_bucket_world_def)
  have b: "json_parse empty_bucket_world ''{ RequestCharged: null }'' = Inr (JObj [(''RequestCharged'', JNull)])"
    by (simp add: empty_bucket_world_def)
  have c: "map_of [(''RequestCharged'', JNull)] ''Contents'' = None \<or>
           map_of [(''RequestCharged'', JNull)] ''Contents'' = Some (JArr [])" by simp
  from listKeys_empty_bucket[OF a b c, of "[]"] show ?thesis using a b by simp
qed


section \<open>The locator that is transferred\<close>

lemma spawn_calls_append: "spawn_calls (xs @ ys) = spawn_calls xs @ spawn_calls ys"
  by (simp add: spawn_calls_def)

lemma spawn_calls_showCsv: "spawn_calls (snd (showCsv w p u)) = []"
  by (simp add: showCsv_def spawn_calls_def split: sum.splits option.splits)

lemma spawn_calls_invalid:
  "\<not> startsWith u ''s3://'' \<Longrightarrow> spawn_calls (trace_of (fetchCsvToTemp w u p r fs)) = []"
  by (simp add: fetchCsvToTemp_def trace_of_def spawn_calls_def)

lemma resolveUri_chosen:
  "snd (resolveUri w cfg arg) = (if truthy arg \<or> configuredUri cfg \<noteq> [] then [] else [ShowInputBox])"
  "(case fst (resolveUri w cfg arg) of Inl e \<Rightarrow> None | Inr v \<Rightarrow> v) = chosen w cfg arg"
  by (auto simp: resolveUri_def chosen_def)

lemma openCsvFromS3_trace_idle:
  assumes "chosen w cfg arg = None \<or> chosen w cfg arg = Some []"
  shows "openCsvFromS3 w cfg arg fs =
           (Some (case fst (resolveUri w cfg arg) of Inl e \<Rightarrow> Inl e | Inr v \<Rightarrow> Inr ()), fs,
            if truthy arg \<or> configuredUri cfg \<noteq> [] then [] else [ShowInputBox])"
proof -
  obtain rv tr0 where rs: "resolveUri w cfg arg = (rv, tr0)" by (cases "resolveUri w cfg arg")
  from resolveUri_chosen[of w cfg arg] rs
  have tr0: "tr0 = (if truthy arg \<or> configuredUri cfg \<noteq> [] then [] else [ShowInputBox])"
    and rv: "(case rv of Inl e \<Rightarrow> None | Inr v \<Rightarrow> v) = chosen w cfg arg" by simp_all
  show ?thesis
  proof (cases rv)
    case (Inl e)
    then show ?thesis using rs tr0 by (simp add: openCsvFromS3_def)
  next
    case (Inr v)
    with rv assms have "v = None \<or> v = Some []" by simp
    then show ?thesis using rs tr0 Inr by (auto simp: openCsvFromS3_def)
  qed
qed

lemma openCsvFromS3_trace_transfer:
  assumes "chosen w cfg arg = Some u" and "u \<noteq> []"
  shows "\<exists>post. trace_of (openCsvFromS3 w cfg arg fs) =
           (if truthy arg \<or> configuredUri cfg \<noteq> [] then [] else [ShowInputBox])
           @ trace_of (fetchCsvToTemp w u (Some (trimmed_or_empty (cfg_awsProfile cfg)))
                         (Some (trimmed_or_empty (cfg_awsRegion cfg))) fs)
           @ post
         \<and> spawn_calls post = [] \<and> ShowInputBox \<notin> set post"
proof -
  let ?p = "Some (trimmed_or_empty (cfg_awsProfile cfg))"
  let ?r = "Some (trimmed_or_empty (cfg_awsRegion cfg))"
  obtain rv tr0 where rs: "resolveUri w cfg arg = (rv, tr0)" by (cases "resolveUri w cfg arg")
  from resolveUri_chosen[of w cfg arg] rs
  have tr0: "tr0 = (if truthy arg \<or> configuredUri cfg \<noteq> [] then [] else [ShowInputBox])"
    and rv: "(case rv of Inl e \<Rightarrow> None | Inr v \<Rightarrow> v) = chosen w cfg arg" by simp_all
  from rv assms(1) have rvu: "rv = Inr (Some u)" by (cases rv) auto
  obtain x fs1 tr1 where f: "fetchCsvToTemp w u ?p ?r fs = (x, fs1, tr1)"
    by (cases "fetchCsvToTemp w u ?p ?r fs")
  have o: "openCsvFromS3 w cfg arg fs =
        (case x of
           None \<Rightarrow> (None, fs1, tr0 @ tr1)
         | Some (Inl e) \<Rightarrow> (Some (Inr ()), fs1, tr0 @ tr1 @ [load_failed e])
         | Some (Inr tmpPath) \<Rightarrow>
             (case showCsv w tmpPath u of
                (Some e, tr2) \<Rightarrow> (Some (Inr ()), fs1, tr0 @ tr1 @ tr2 @ [load_failed e])
              | (None, tr2) \<Rightarrow> (Some (Inr ()), fs1, tr0 @ tr1 @ tr2)))"
    using rs rvu assms(2) f by (simp add: openCsvFromS3_def Let_def split: option.splits sum.splits)
  have t1: "trace_of (fetchCsvToTemp w u ?p ?r fs) = tr1" using f by (simp add: trace_of_def)
  show ?thesis
  proof (cases x)
    case None
    then show ?thesis using o tr0 t1
      by (intro exI[of _ "[]"]) (simp add: trace_of_def spawn_calls_def)
  next
    case (Some y)
    show ?thesis
    proof (cases y)
      case (Inl e)
      then show ?thesis using o tr0 t1 Some
        by (intro exI[of _ "[load_failed e]"]) (simp add: trace_of_def spawn_calls_def load_failed_def)
    next
      case (Inr p)
      obtain z tr2 where s: "showCsv w p u = (z, tr2)" by (cases "showCsv w p u")
      have sc: "spawn_calls tr2 = []" using spawn_calls_showCsv[of w p u] s by simp
      have ni: "ShowInputBox \<notin> set tr2"
        using s by (auto simp: showCsv_def split: sum.splits option.splits if_splits)
      show ?thesis
      proof (cases z)
        case None
        then show ?thesis using o tr0 t1 Some Inr s sc ni
          by (intro exI[of _ tr2]) (simp add: trace_of_def)
      next
        case (Some e)
        then show ?thesis using o tr0 t1 \<open>x = Some y\<close> Inr s sc ni
          by (intro exI[of _ "tr2 @ [load_failed e]"])
            (simp add: trace_of_def spawn_calls_append, simp add: spawn_calls_def load_failed_def)
      qed
    qed
  qed
qed

lemma no_input_box_fetch: "ShowInputBox \<notin> set (trace_of (fetchCsvToTemp w u p r fs))"
proof (cases "startsWith u ''s3://''")
  case True
  from fetchCsvToTemp_trace[OF True, of w p r fs] show ?thesis by auto
next
  case False
  then show ?thesis by (simp add: fetchCsvToTemp_def trace_of_def)
qed

lemma messages_fetch: "messages (trace_of (fetchCsvToTemp w u p r fs)) = []"
proof (cases "startsWith u ''s3://''")
  case True
  from fetchCsvToTemp_trace[OF True, of w p r fs] obtain ks where
    t: "trace_of (fetchCsvToTemp w u p r fs) =
           [Spawn (awsCmd w) (cp_args u) (spread (process_env w) (envExtrasOf p r)),
            CreateWriteStream (tmpPathOf (tmpdir w) (now w) u)] @ ks"
    and k: "set ks \<subseteq> {Kill ''SIGKILL'', Unlink (tmpPathOf (tmpdir w) (now w) u)}" by blast
  from k have "filter is_message ks = []" by (induction ks) auto
  then show ?thesis by (simp add: t messages_def)
next
  case False
  then show ?thesis by (simp add: fetchCsvToTemp_def trace_of_def messages_def)
qed

text \<open>
  C4. The locator that \<open>openCsvFromS3\<close> transfers is the explicit argument when it
  is not empty, otherwise the configured default (the setting, trimmed) when it is not
  empty, otherwise what the input box returns: a valid locator chosen in this order is
  the one handed to \<open>aws s3 cp\<close>, an invalid or absent one starts no transfer, and the
  input box is shown exactly when neither the argument nor the configured default is
  there.
\<close>

theorem locator_priority:
  fixes w :: world and cfg :: config and uriFromInput :: "string option"
  defines "locator \<equiv>
     (if truthy uriFromInput then uriFromInput
      else if configuredUri cfg \<noteq> [] then Some (configuredUri cfg)
      else (case input_box w of Inl e \<Rightarrow> None | Inr v \<Rightarrow> v))"
  shows "spawn_calls (trace_of (openCsvFromS3 w cfg uriFromInput fs)) =
           (case locator of
              None \<Rightarrow> []
            | Some u \<Rightarrow>
                if startsWith u ''s3://'' then
                  [(awsCmd w, cp_args u,
                    spread (process_env w)
                      (envExtrasOf (Some (trimmed_or_empty (cfg_awsProfile cfg)))
                                   (Some (trimmed_or_empty (cfg_awsRegion cfg)))))]
                else [])
         \<and> (ShowInputBox \<in> set (trace_of (openCsvFromS3 w cfg uriFromInput fs))
              \<longleftrightarrow> \<not> truthy uriFromInput \<and> configuredUri cfg = [])"
proof -
  let ?p = "Some (trimmed_or_empty (cfg_awsProfile cfg))"
  let ?r = "Some (trimmed_or_empty (cfg_awsRegion cfg))"
  have l: "locator = chosen w cfg uriFromInput" by (simp add: locator_def chosen_def)
  show ?thesis
  proof (cases "locator = None \<or> locator = Some []")
    case True
    then have "chosen w cfg uriFromInput = None \<or> chosen w cfg uriFromInput = Some []" by (simp add: l)
    from openCsvFromS3_trace_idle[OF this, of fs] True
    show ?thesis by (auto simp: trace_of_def spawn_calls_def startsWith_def)
  next
    case False
    then obtain u where u: "locator = Some u" and ne: "u \<noteq> []" by (cases locator) auto
    from u have c: "chosen w cfg uriFromInput = Some u" by (simp add: l)
    from openCsvFromS3_trace_transfer[OF c ne, of fs] obtain post where
      t: "trace_of (openCsvFromS3 w cfg uriFromInput fs) =
           (if truthy uriFromInput \<or> configuredUri cfg \<noteq> [] then [] else [ShowInputBox])
           @ trace_of (fetchCsvToTemp w u ?p ?r fs) @ post"
      and sp: "spawn_calls post = []" and ni: "ShowInputBox \<notin> set post" by blast
    have s0: "spawn_calls (if truthy uriFromInput \<or> configuredUri cfg \<noteq> [] then [] else [ShowInputBox]) = []"
      by (simp add: spawn_calls_def)
    have s1: "spawn_calls (trace_of (fetchCsvToTemp w u ?p ?r fs)) =
                (if startsWith u ''s3://'' then
                  [(awsCmd w, cp_args u, spread (process_env w) (envExtrasOf ?p ?r))] else [])"
      using spawn_calls_fetch[of u w ?p ?r fs] spawn_calls_invalid[of u w ?p ?r fs] by simp
    have A: "spawn_calls (trace_of (openCsvFromS3 w cfg uriFromInput fs)) =
               (if startsWith u ''s3://'' then
                  [(awsCmd w, cp_args u, spread (process_env w) (envExtrasOf ?p ?r))] else [])"
      by (simp only: t spawn_calls_append s0 s1 sp append_Nil append_Nil2)
    have B: "ShowInputBox \<in> set (trace_of (openCsvFromS3 w cfg uriFromInput fs))
              \<longleftrightarrow> \<not> truthy uriFromInput \<and> configuredUri cfg = []"
      using ni no_input_box_fetch[of w u ?p ?r fs] by (auto simp: t)
    from A B u show ?thesis by simp
  qed
qed

lemmas cfg_eval =
  configuredUri_def trimmed_or_empty_def trim_def is_ws_def truthy_def startsWith_def
  awsCmd_def cp_args_def spread_def envExtrasOf_cases sample_world_def sample_config_def

theorem locator_priority_witness:
  "spawn_calls (trace_of (openCsvFromS3 sample_world sample_config (Some ''s3://arg/a.csv'') Map.empty))
     = [(''aws'', [''s3'', ''cp'', ''s3://arg/a.csv'', ''-'', ''--no-progress'', ''--only-show-errors''],
         [(''PATH'', ''/usr/bin''), (''AWS_PROFILE'', ''dev'')])]
   \<and> spawn_calls (trace_of (openCsvFromS3 sample_world sample_config None Map.empty))
     = [(''aws'', [''s3'', ''cp'', ''s3://bucket1/data.csv'', ''-'', ''--no-progress'', ''--only-show-errors''],
         [(''PATH'', ''/usr/bin''), (''AWS_PROFILE'', ''dev'')])]
   \<and> spawn_calls (trace_of (openCsvFromS3 (sample_world\<lparr>input_box := Inr (Some ''s3://typed/t.csv'')\<rparr>)
                               (sample_config\<lparr>cfg_s3Uri := None\<rparr>) None Map.empty))
     = [(''aws'', [''s3'', ''cp'', ''s3://typed/t.csv'', ''-'', ''--no-progress'', ''--only-show-errors''],
         [(''PATH'', ''/usr/bin''), (''AWS_PROFILE'', ''dev'')])]
   \<and> ShowInputBox \<in> set (trace_of (openCsvFromS3 (sample_world\<lparr>input_box := Inr (Some ''s3://typed/t.csv'')\<rparr>)
                               (sample_config\<lparr>cfg_s3Uri := None\<rparr>) None Map.empty))"
  using locator_priority[of sample_world sample_config "Some ''s3://arg/a.csv''" Map.empty]
    locator_priority[of sample_world sample_config None Map.empty]
    locator_priority[of "sample_world\<lparr>input_box := Inr (Some ''s3://typed/t.csv'')\<rparr>"
                        "sample_config\<lparr>cfg_s3Uri := None\<rparr>" None Map.empty]
  by (simp add: cfg_eval)



section \<open>Activation\<close>

lemma openCsvFromS3_on_fetch_failure:
  assumes "chosen w cfg arg = Some u" and "u \<noteq> []"
    and "result_of (fetchCsvToTemp w u (Some (trimmed_or_empty (cfg_awsProfile cfg)))
                      (Some (trimmed_or_empty (cfg_awsRegion cfg))) fs) = Some (Inl e)"
  shows "messages (trace_of (openCsvFromS3 w cfg arg fs)) = [load_failed e]
         \<and> result_of (openCsvFromS3 w cfg arg fs) = Some (Inr ())"
proof -
  let ?p = "Some (trimmed_or_empty (cfg_awsProfile cfg))"
  let ?r = "Some (trimmed_or_empty (cfg_awsRegion cfg))"
  obtain rv tr0 where rs: "resolveUri w cfg arg = (rv, tr0)" by (cases "resolveUri w cfg arg")
  from resolveUri_chosen[of w cfg arg] rs
  have tr0: "tr0 = (if truthy arg \<or> configuredUri cfg \<noteq> [] then [] else [ShowInputBox])"
    and rv: "(case rv of Inl e \<Rightarrow> None | Inr v \<Rightarrow> v) = chosen w cfg arg" by simp_all
  from rv assms(1) have rvu: "rv = Inr (Some u)" by (cases rv) auto
  obtain x fs1 tr1 where f: "fetchCsvToTemp w u ?p ?r fs = (x, fs1, tr1)"
    by (cases "fetchCsvToTemp w u ?p ?r fs")
  with assms(3) have x: "x = Some (Inl e)" by (simp add: result_of_def)
  have o: "openCsvFromS3 w cfg arg fs = (Some (Inr ()), fs1, tr0 @ tr1 @ [load_failed e])"
    using rs rvu assms(2) f x by (simp add: openCsvFromS3_def Let_def)
  have m1: "messages tr1 = []" using messages_fetch[of w u ?p ?r fs] f by (simp add: trace_of_def)
  have m0: "messages tr0 = []" by (simp add: tr0 messages_def)
  have "messages (tr0 @ tr1 @ [load_failed e]) = messages tr0 @ messages tr1 @ [load_failed e]"
    by (simp add: messages_def load_failed_def)
  then show ?thesis by (simp add: o m0 m1 trace_of_def result_of_def)
qed

text \<open>
  C7. \<open>activate\<close> starts \<open>openCsvFromS3(context).catch(() => {})\<close> under the comment
  "Don't block startup; ignore errors", and an error of that run is to be swallowed with
  no message shown. It is not: with \<open>autoOpenOnStartup\<close> set, a configured locator and a
  download that ends with exit code 2, the run shows the error message, because
  \<open>openCsvFromS3\<close> catches the error itself and calls \<open>showErrorMessage\<close>.
\<close>

theorem activate_startup_failure_shows_message:
  "cfg_autoOpenOnStartup sample_config = Some True
   \<and> messages (trace_of (activate denied_world sample_config Map.empty))
       = [ShowErrorMessage ''Failed to load CSV. AWS CLI exited with code 2: Access Denied'']"
  by (simp add: activate_def openCsvFromS3_def resolveUri_def load_failed_def messages_def
      cfg_eval fetch_eval sample_path denied_world_def)

text \<open>
  In general: when \<open>autoOpenOnStartup\<close> is true, \<open>activate\<close> registers the command and runs
  \<open>openCsvFromS3\<close> once, with no argument. A rejection of that run is swallowed, so the
  promise started at startup never rejects; but every error of the download is caught
  inside \<open>openCsvFromS3\<close> and shown as \<open>Failed to load CSV.\<close> followed by its message, and
  never reaches the \<open>catch\<close> of \<open>activate\<close>.
\<close>

lemma activate_auto_open:
  fixes w :: world and cfg :: config
  defines "locator \<equiv>
     (if configuredUri cfg \<noteq> [] then Some (configuredUri cfg)
      else (case input_box w of Inl e \<Rightarrow> None | Inr v \<Rightarrow> v))"
  assumes "cfg_autoOpenOnStartup cfg = Some True"
  shows "trace_of (activate w cfg fs)
           = RegisterCommand ''s3CsvViewer.openCsvFromS3'' # trace_of (openCsvFromS3 w cfg None fs)
         \<and> files_of (activate w cfg fs) = files_of (openCsvFromS3 w cfg None fs)
         \<and> result_of (activate w cfg fs) = catch_ignore (result_of (openCsvFromS3 w cfg None fs))
         \<and> (\<forall>e. result_of (activate w cfg fs) \<noteq> Some (Inl e))
         \<and> (\<forall>u e. locator = Some u \<and> u \<noteq> []
                \<and> result_of (fetchCsvToTemp w u (Some (trimmed_or_empty (cfg_awsProfile cfg)))
                                 (Some (trimmed_or_empty (cfg_awsRegion cfg))) fs) = Some (Inl e)
              \<longrightarrow> messages (trace_of (activate w cfg fs))
                    = [ShowErrorMessage (''Failed to load CSV. '' @ message e)])"
proof -
  obtain r fs1 tr where o: "openCsvFromS3 w cfg None fs = (r, fs1, tr)"
    by (cases "openCsvFromS3 w cfg None fs")
  have a: "activate w cfg fs = (catch_ignore r, fs1, RegisterCommand ''s3CsvViewer.openCsvFromS3'' # tr)"
    using assms(2) o by (simp add: activate_def)
  have l: "locator = chosen w cfg None" by (simp add: locator_def chosen_def truthy_def)
  have 1: "trace_of (activate w cfg fs)
           = RegisterCommand ''s3CsvViewer.openCsvFromS3'' # trace_of (openCsvFromS3 w cfg None fs)"
    by (simp add: a o trace_of_def)
  have 2: "files_of (activate w cfg fs) = files_of (openCsvFromS3 w cfg None fs)"
    by (simp add: a o files_of_def)
  have 3: "result_of (activate w cfg fs) = catch_ignore (result_of (openCsvFromS3 w cfg None fs))"
    by (simp add: a o result_of_def)
  have 4: "\<forall>e. result_of (activate w cfg fs) \<noteq> Some (Inl e)"
    by (auto simp: 3 catch_ignore_def split: option.splits sum.splits)
  have 5: "\<forall>u e. locator = Some u \<and> u \<noteq> []
                \<and> result_of (fetchCsvToTemp w u (Some (trimmed_or_empty (cfg_awsProfile cfg)))
                                 (Some (trimmed_or_empty (cfg_awsRegion cfg))) fs) = Some (Inl e)
              \<longrightarrow> messages (trace_of (activate w cfg fs))
                    = [ShowErrorMessage (''Failed to load CSV. '' @ message e)]"
  proof (intro allI impI)
    fix u e
    assume h: "locator = Some u \<and> u \<noteq> []
                \<and> result_of (fetchCsvToTemp w u (Some (trimmed_or_empty (cfg_awsProfile cfg)))
                                 (Some (trimmed_or_empty (cfg_awsRegion cfg))) fs) = Some (Inl e)"
    then have c: "chosen w cfg None = Some u" by (simp add: l)
    from h have ne: "u \<noteq> []"
      and fe: "result_of (fetchCsvToTemp w u (Some (trimmed_or_empty (cfg_awsProfile cfg)))
                            (Some (trimmed_or_empty (cfg_awsRegion cfg))) fs) = Some (Inl e)" by simp_all
    from openCsvFromS3_on_fetch_failure[OF c ne fe]
    have "messages (trace_of (openCsvFromS3 w cfg None fs)) = [load_failed e]" by simp
    then show "messages (trace_of (activate w cfg fs))
                 = [ShowErrorMessage (''Failed to load CSV. '' @ message e)]"
      by (simp add: 1 messages_def load_failed_def)
  qed
  from 1 2 3 4 5 show ?thesis by blast
qed

text \<open>What the \<open>catch\<close> of \<open>activate\<close> does swallow: a rejection of the input box.\<close>

lemma activate_swallows_rejection:
  "cfg_autoOpenOnStartup (sample_config\<lparr>cfg_s3Uri := None\<rparr>) = Some True
   \<and> result_of (openCsvFromS3 rejecting_world (sample_config\<lparr>cfg_s3Uri := None\<rparr>) None Map.empty)
       = Some (Inl (Error ''Canceled''))
   \<and> result_of (activate rejecting_world (sample_config\<lparr>cfg_s3Uri := None\<rparr>) Map.empty) = Some (Inr ())
   \<and> trace_of (activate rejecting_world (sample_config\<lparr>cfg_s3Uri := None\<rparr>) Map.empty)
       = [RegisterCommand ''s3CsvViewer.openCsvFromS3'', ShowInputBox]"
proof -
  have a: "cfg_autoOpenOnStartup (sample_config\<lparr>cfg_s3Uri := None\<rparr>) = Some True"
    by (simp add: sample_config_def)
  have o: "openCsvFromS3 rejecting_world (sample_config\<lparr>cfg_s3Uri := None\<rparr>) None Map.empty
             = (Some (Inl (Error ''Canceled'')), Map.empty, [ShowInputBox])"
    by (simp add: openCsvFromS3_def resolveUri_def cfg_eval rejecting_world_def)
  from activate_auto_open[OF a, of rejecting_world Map.empty]
  show ?thesis using a by (simp add: o result_of_def trace_of_def catch_ignore_def)
qed

text \<open>
  The same holds for an error of opening or showing the document, or of setting its
  language: it is shown, and the startup run does not reject.
\<close>

lemma messages_showCsv_error: "fst (showCsv w p u) = Some e \<Longrightarrow> messages (snd (showCsv w p u)) = []"
  by (auto simp: showCsv_def messages_def split: sum.splits option.splits if_splits)

lemma openCsvFromS3_on_show_failure:
  assumes "chosen w cfg arg = Some u" and "u \<noteq> []"
    and "result_of (fetchCsvToTemp w u (Some (trimmed_or_empty (cfg_awsProfile cfg)))
                      (Some (trimmed_or_empty (cfg_awsRegion cfg))) fs) = Some (Inr p)"
    and "fst (showCsv w p u) = Some e"
  shows "messages (trace_of (openCsvFromS3 w cfg arg fs)) = [load_failed e]
         \<and> result_of (openCsvFromS3 w cfg arg fs) = Some (Inr ())"
proof -
  let ?p = "Some (trimmed_or_empty (cfg_awsProfile cfg))"
  let ?r = "Some (trimmed_or_empty (cfg_awsRegion cfg))"
  obtain rv tr0 where rs: "resolveUri w cfg arg = (rv, tr0)" by (cases "resolveUri w cfg arg")
  from resolveUri_chosen[of w cfg arg] rs
  have tr0: "tr0 = (if truthy arg \<or> configuredUri cfg \<noteq> [] then [] else [ShowInputBox])"
    and rv: "(case rv of Inl e \<Rightarrow> None | Inr v \<Rightarrow> v) = chosen w cfg arg" by simp_all
  from rv assms(1) have rvu: "rv = Inr (Some u)" by (cases rv) auto
  obtain x fs1 tr1 where f: "fetchCsvToTemp w u ?p ?r fs = (x, fs1, tr1)"
    by (cases "fetchCsvToTemp w u ?p ?r fs")
  with assms(3) have x: "x = Some (Inr p)" by (simp add: result_of_def)
  obtain z tr2 where s: "showCsv w p u = (z, tr2)" by (cases "showCsv w p u")
  with assms(4) have z: "z = Some e" by simp
  have o: "openCsvFromS3 w cfg arg fs = (Some (Inr ()), fs1, tr0 @ tr1 @ tr2 @ [load_failed e])"
    using rs rvu assms(2) f x s z by (simp add: openCsvFromS3_def Let_def)
  have m1: "messages tr1 = []" using messages_fetch[of w u ?p ?r fs] f by (simp add: trace_of_def)
  have m0: "messages tr0 = []" by (simp add: tr0 messages_def)
  have m2: "messages tr2 = []" using messages_showCsv_error[OF assms(4)] s by simp
  have "messages (tr0 @ tr1 @ tr2 @ [load_failed e])
          = messages tr0 @ messages tr1 @ messages tr2 @ [load_failed e]"
    by (simp add: messages_def load_failed_def)
  then show ?thesis by (simp add: o m0 m1 m2 trace_of_def result_of_def)
qed

lemma activate_shows_viewer_error:
  assumes "cfg_autoOpenOnStartup cfg = Some True"
    and "chosen w cfg None = Some u" and "u \<noteq> []"
    and "result_of (fetchCsvToTemp w u (Some (trimmed_or_empty (cfg_awsProfile cfg)))
                      (Some (trimmed_or_empty (cfg_awsRegion cfg))) fs) = Some (Inr p)"
    and "fst (showCsv w p u) = Some e"
  shows "messages (trace_of (activate w cfg fs))
           = [ShowErrorMessage (''Failed to load CSV. '' @ message e)]"
proof -
  obtain r fs1 tr where o: "openCsvFromS3 w cfg None fs = (r, fs1, tr)"
    by (cases "openCsvFromS3 w cfg None fs")
  have t: "trace_of (activate w cfg fs) = RegisterCommand ''s3CsvViewer.openCsvFromS3'' # tr"
    using assms(1) o by (simp add: activate_def trace_of_def)
  from openCsvFromS3_on_show_failure[OF assms(2,3,4,5)] o
  have "messages tr = [load_failed e]" by (simp add: trace_of_def)
  then show ?thesis by (simp add: t messages_def load_failed_def)
qed

section \<open>Dismissed prompts\<close>

lemma listBuckets_trace:
  "snd (listBuckets w env) =
     [ExecFile (awsCmd w) [''s3api'', ''list-buckets'', ''--output'', ''json''] (spread (process_env w) env)]"
  by (simp add: listBuckets_def runAwsCli_def split: exec_result.splits sum.splits)

lemma listKeys_trace:
  "snd (listKeys w bucket env) =
     [ExecFile (awsCmd w) [''s3api'', ''list-objects-v2'', ''--bucket'', bucket, ''--output'', ''json'']
        (spread (process_env w) env)]"
  by (simp add: listKeys_def runAwsCli_def split: exec_result.splits sum.splits)

text \<open>
  C5. When the user dismisses the input box, \<open>openCsvFromS3\<close> returns having
  shown the input box and nothing else. When the user dismisses the bucket picker,
  \<open>pickAndOpenS3File\<close> returns after the list-buckets query and the picker: no
  list-objects query, no message, no transfer. When the user dismisses the file picker,
  it returns after the two queries and the two pickers: no message, no transfer. The
  file system is unchanged in all three cases.
\<close>

theorem cancel_returns_to_idle:
  fixes w :: world and cfg :: config
  defines "env \<equiv> envExtrasOf (map_option trim (cfg_awsProfile cfg)) (map_option trim (cfg_awsRegion cfg))"
  shows "(\<not> truthy uriFromInput \<and> configuredUri cfg = [] \<and> input_box w = Inr None
            \<longrightarrow> openCsvFromS3 w cfg uriFromInput fs = (Some (Inr ()), fs, [ShowInputBox]))
       \<and> (fst (listBuckets w env) = Inr buckets
            \<and> quick_pick w buckets ''Select an S3 bucket'' = None
            \<longrightarrow> pickAndOpenS3File w cfg fs =
                  (Some (), fs,
                   [ExecFile (awsCmd w) [''s3api'', ''list-buckets'', ''--output'', ''json'']
                      (spread (process_env w) env),
                    ShowQuickPick buckets ''Select an S3 bucket'']))
       \<and> (fst (listBuckets w env) = Inr buckets
            \<and> quick_pick w buckets ''Select an S3 bucket'' = Some bucket \<and> bucket \<noteq> []
            \<and> fst (listKeys w bucket env) = Inr keys
            \<and> quick_pick w keys (''Select file from '' @ bucket) = None
            \<longrightarrow> pickAndOpenS3File w cfg fs =
                  (Some (), fs,
                   [ExecFile (awsCmd w) [''s3api'', ''list-buckets'', ''--output'', ''json'']
                      (spread (process_env w) env),
                    ShowQuickPick buckets ''Select an S3 bucket'',
                    ExecFile (awsCmd w)
                      [''s3api'', ''list-objects-v2'', ''--bucket'', bucket, ''--output'', ''json'']
                      (spread (process_env w) env),
                    ShowQuickPick keys (''Select file from '' @ bucket)]))"
proof -
  have 1: "\<not> truthy uriFromInput \<and> configuredUri cfg = [] \<and> input_box w = Inr None
            \<longrightarrow> openCsvFromS3 w cfg uriFromInput fs = (Some (Inr ()), fs, [ShowInputBox])"
  proof
    assume h: "\<not> truthy uriFromInput \<and> configuredUri cfg = [] \<and> input_box w = Inr None"
    then have r: "resolveUri w cfg uriFromInput = (Inr None, [ShowInputBox])"
      by (simp add: resolveUri_def)
    then show "openCsvFromS3 w cfg uriFromInput fs = (Some (Inr ()), fs, [ShowInputBox])"
      by (simp add: openCsvFromS3_def)
  qed
  obtain rb tb where lb: "listBuckets w env = (rb, tb)" by (cases "listBuckets w env")
  with listBuckets_trace[of w env]
  have tb: "tb = [ExecFile (awsCmd w) [''s3api'', ''list-buckets'', ''--output'', ''json'']
                    (spread (process_env w) env)]" by simp
  have 2: "fst (listBuckets w env) = Inr buckets
            \<and> quick_pick w buckets ''Select an S3 bucket'' = None
            \<longrightarrow> pickAndOpenS3File w cfg fs =
                  (Some (), fs,
                   [ExecFile (awsCmd w) [''s3api'', ''list-buckets'', ''--output'', ''json'']
                      (spread (process_env w) env),
                    ShowQuickPick buckets ''Select an S3 bucket''])"
    using lb tb by (simp add: pickAndOpenS3File_def Let_def env_def[symmetric])
  have 3: "fst (listBuckets w env) = Inr buckets
            \<and> quick_pick w buckets ''Select an S3 bucket'' = Some bucket \<and> bucket \<noteq> []
            \<and> fst (listKeys w bucket env) = Inr keys
            \<and> quick_pick w keys (''Select file from '' @ bucket) = None
            \<longrightarrow> pickAndOpenS3File w cfg fs =
                  (Some (), fs,
                   [ExecFile (awsCmd w) [''s3api'', ''list-buckets'', ''--output'', ''json'']
                      (spread (process_env w) env),
                    ShowQuickPick buckets ''Select an S3 bucket'',
                    ExecFile (awsCmd w)
                      [''s3api'', ''list-objects-v2'', ''--bucket'', bucket, ''--output'', ''json'']
                      (spread (process_env w) env),
                    ShowQuickPick keys (''Select file from '' @ bucket)])"
  proof
    assume h: "fst (listBuckets w env) = Inr buckets
            \<and> quick_pick w buckets ''Select an S3 bucket'' = Some bucket \<and> bucket \<noteq> []
            \<and> fst (listKeys w bucket env) = Inr keys
            \<and> quick_pick w keys (''Select file from '' @ bucket) = None"
    obtain rk tk where lk: "listKeys w bucket env = (rk, tk)" by (cases "listKeys w bucket env")
    with listKeys_trace[of w bucket env]
    have tk: "tk = [ExecFile (awsCmd w)
                      [''s3api'', ''list-objects-v2'', ''--bucket'', bucket, ''--output'', ''json'']
                      (spread (process_env w) env)]" by simp
    from h lb have rb: "rb = Inr buckets" by simp
    from h lk have rk: "rk = Inr keys" by simp
    show "pickAndOpenS3File w cfg fs =
                  (Some (), fs,
                   [ExecFile (awsCmd w) [''s3api'', ''list-buckets'', ''--output'', ''json'']
                      (spread (process_env w) env),
                    ShowQuickPick buckets ''Select an S3 bucket'',
                    ExecFile (awsCmd w)
                      [''s3api'', ''list-objects-v2'', ''--bucket'', bucket, ''--output'', ''json'']
                      (spread (process_env w) env),
                    ShowQuickPick keys (''Select file from '' @ bucket)])"
      using h lb lk rb rk tb tk by (simp add: pickAndOpenS3File_def Let_def env_def[symmetric])
  qed
  from 1 2 3 show ?thesis by blast
qed

lemmas pick_eval =
  listBuckets_def listKeys_def runAwsCli_def picker_world_def bucket_chosen_world_def
  sample_world_def sample_config_def envExtrasOf_cases truthy_def trim_def is_ws_def

theorem cancel_returns_to_idle_witness:
  "openCsvFromS3 sample_world (sample_config\<lparr>cfg_s3Uri := None\<rparr>) None Map.empty
     = (Some (Inr ()), Map.empty, [ShowInputBox])
   \<and> result_of (pickAndOpenS3File picker_world sample_config Map.empty) = Some ()
   \<and> messages (trace_of (pickAndOpenS3File picker_world sample_config Map.empty)) = []
   \<and> spawn_calls (trace_of (pickAndOpenS3File picker_world sample_config Map.empty)) = []
   \<and> exec_calls (trace_of (pickAndOpenS3File picker_world sample_config Map.empty))
       = [[''s3api'', ''list-buckets'', ''--output'', ''json'']]
   \<and> result_of (pickAndOpenS3File bucket_chosen_world sample_config Map.empty) = Some ()
   \<and> messages (trace_of (pickAndOpenS3File bucket_chosen_world sample_config Map.empty)) = []
   \<and> spawn_calls (trace_of (pickAndOpenS3File bucket_chosen_world sample_config Map.empty)) = []
   \<and> exec_calls (trace_of (pickAndOpenS3File bucket_chosen_world sample_config Map.empty))
       = [[''s3api'', ''list-buckets'', ''--output'', ''json''],
          [''s3api'', ''list-objects-v2'', ''--bucket'', ''b'', ''--output'', ''json'']]"
proof -
  let ?env = "envExtrasOf (map_option trim (cfg_awsProfile sample_config))
                (map_option trim (cfg_awsRegion sample_config))"
  have a: "\<not> truthy None \<and> configuredUri (sample_config\<lparr>cfg_s3Uri := None\<rparr>) = []
           \<and> input_box sample_world = Inr None"
    by (simp add: truthy_def configuredUri_def trimmed_or_empty_def sample_world_def)
  have b: "fst (listBuckets picker_world ?env) = Inr [JStr ''a'', JStr ''b'']
           \<and> quick_pick picker_world [JStr ''a'', JStr ''b''] ''Select an S3 bucket'' = None"
    by (simp add: pick_eval)
  have c: "fst (listBuckets bucket_chosen_world ?env) = Inr [JStr ''a'', JStr ''b'']
           \<and> quick_pick bucket_chosen_world [JStr ''a'', JStr ''b''] ''Select an S3 bucket'' = Some ''b''
           \<and> ''b'' \<noteq> []
           \<and> fst (listKeys bucket_chosen_world ''b'' ?env) = Inr [JStr ''x.csv'']
           \<and> quick_pick bucket_chosen_world [JStr ''x.csv''] (''Select file from '' @ ''b'') = None"
    by (simp add: pick_eval)
  note t = cancel_returns_to_idle[where uriFromInput=None and cfg="sample_config\<lparr>cfg_s3Uri := None\<rparr>"
              and w=sample_world and fs=Map.empty]
  note p = cancel_returns_to_idle[where cfg=sample_config and w=picker_world and fs=Map.empty
              and buckets="[JStr ''a'', JStr ''b'']"]
  note q = cancel_returns_to_idle[where cfg=sample_config and w=bucket_chosen_world and fs=Map.empty
              and buckets="[JStr ''a'', JStr ''b'']" and bucket="''b''" and keys="[JStr ''x.csv'']"]
  from t a have 1: "openCsvFromS3 sample_world (sample_config\<lparr>cfg_s3Uri := None\<rparr>) None Map.empty
     = (Some (Inr ()), Map.empty, [ShowInputBox])" by blast
  from p b have 2: "pickAndOpenS3File picker_world sample_config Map.empty =
                  (Some (), Map.empty,
                   [ExecFile (awsCmd picker_world) [''s3api'', ''list-buckets'', ''--output'', ''json'']
                      (spread (process_env picker_world) ?env),
                    ShowQuickPick [JStr ''a'', JStr ''b''] ''Select an S3 bucket''])" by blast
  from q c have 3: "pickAndOpenS3File bucket_chosen_world sample_config Map.empty =
                  (Some (), Map.empty,
                   [ExecFile (awsCmd bucket_chosen_world) [''s3api'', ''list-buckets'', ''--output'', ''json'']
                      (spread (process_env bucket_chosen_world) ?env),
                    ShowQuickPick [JStr ''a'', JStr ''b''] ''Select an S3 bucket'',
                    ExecFile (awsCmd bucket_chosen_world)
                      [''s3api'', ''list-objects-v2'', ''--bucket'', ''b'', ''--output'', ''json'']
                      (spread (process_env bucket_chosen_world) ?env),
                    ShowQuickPick [JStr ''x.csv''] (''Select file from '' @ ''b'')])" by blast
  show ?thesis
    by (simp add: 1 2 3 result_of_def trace_of_def messages_def spawn_calls_def exec_calls_def)
qed

section \<open>The environment of the subprocesses\<close>

lemma subprocess_envs_append:
  "subprocess_envs (xs @ ys) = subprocess_envs xs @ subprocess_envs ys"
  by (simp add: subprocess_envs_def)

lemma subprocess_envs_showCsv: "subprocess_envs (snd (showCsv w p u)) = []"
  by (simp add: showCsv_def subprocess_envs_def split: sum.splits option.splits)

lemma subprocess_envs_transfer:
  "subprocess_envs (trace_of (awsS3CpToFile w u d ex fs)) = [spread (process_env w) ex]"
  using awsS3CpToFile_trace[of w u d ex fs] by (auto simp: subprocess_envs_def)

lemma subprocess_envs_fetch:
  "set (subprocess_envs (trace_of (fetchCsvToTemp w u p r fs)))
     \<subseteq> {spread (process_env w) (envExtrasOf p r)}"
proof (cases "startsWith u ''s3://''")
  case True
  from fetchCsvToTemp_trace[OF True, of w p r fs] obtain ks where
    t: "trace_of (fetchCsvToTemp w u p r fs) =
           [Spawn (awsCmd w) (cp_args u) (spread (process_env w) (envExtrasOf p r)),
            CreateWriteStream (tmpPathOf (tmpdir w) (now w) u)] @ ks"
    and k: "set ks \<subseteq> {Kill ''SIGKILL'', Unlink (tmpPathOf (tmpdir w) (now w) u)}" by blast
  from k have "concat (map envs_of ks) = []" by (induction ks) auto
  then show ?thesis by (simp add: t subprocess_envs_def)
next
  case False
  then show ?thesis by (simp add: fetchCsvToTemp_def trace_of_def subprocess_envs_def)
qed

lemma envExtrasOf_settings:
  "envExtrasOf (Some (trimmed_or_empty p)) (Some (trimmed_or_empty r))
     = envExtrasOf (map_option trim p) (map_option trim r)"
  by (cases p; cases r) (simp_all add: envExtrasOf_cases truthy_def trimmed_or_empty_def)

lemma subprocess_envs_openCsvFromS3:
  "set (subprocess_envs (trace_of (openCsvFromS3 w cfg arg fs)))
     \<subseteq> {spread (process_env w)
           (envExtrasOf (map_option trim (cfg_awsProfile cfg)) (map_option trim (cfg_awsRegion cfg)))}"
proof -
  let ?p = "Some (trimmed_or_empty (cfg_awsProfile cfg))"
  let ?r = "Some (trimmed_or_empty (cfg_awsRegion cfg))"
  let ?E = "envExtrasOf (map_option trim (cfg_awsProfile cfg)) (map_option trim (cfg_awsRegion cfg))"
  have E: "envExtrasOf ?p ?r = ?E" by (rule envExtrasOf_settings)
  obtain rv tr0 where rs: "resolveUri w cfg arg = (rv, tr0)" by (cases "resolveUri w cfg arg")
  from resolveUri_chosen(1)[of w cfg arg] rs
  have tr0: "subprocess_envs tr0 = []" by (auto simp: subprocess_envs_def split: if_splits)
  show ?thesis
  proof (cases "\<exists>u. rv = Inr (Some u) \<and> u \<noteq> []")
    case False
    then have "trace_of (openCsvFromS3 w cfg arg fs) = tr0"
      using rs by (auto simp: openCsvFromS3_def trace_of_def Let_def split: sum.splits option.splits)
    then show ?thesis by (simp add: tr0)
  next
    case True
    then obtain u where rvu: "rv = Inr (Some u)" and ne: "u \<noteq> []" by blast
    obtain x fs1 tr1 where f: "fetchCsvToTemp w u ?p ?r fs = (x, fs1, tr1)"
      by (cases "fetchCsvToTemp w u ?p ?r fs")
    have e1: "set (subprocess_envs tr1) \<subseteq> {spread (process_env w) ?E}"
      using subprocess_envs_fetch[of w u ?p ?r fs] f by (simp add: trace_of_def E)
    have o: "openCsvFromS3 w cfg arg fs =
        (case x of
           None \<Rightarrow> (None, fs1, tr0 @ tr1)
         | Some (Inl e) \<Rightarrow> (Some (Inr ()), fs1, tr0 @ tr1 @ [load_failed e])
         | Some (Inr tmpPath) \<Rightarrow>
             (case showCsv w tmpPath u of
                (Some e, tr2) \<Rightarrow> (Some (Inr ()), fs1, tr0 @ tr1 @ tr2 @ [load_failed e])
              | (None, tr2) \<Rightarrow> (Some (Inr ()), fs1, tr0 @ tr1 @ tr2)))"
      using rs rvu ne f by (simp add: openCsvFromS3_def Let_def split: option.splits sum.splits)
    have lf: "subprocess_envs [load_failed e] = []" for e
      by (simp add: subprocess_envs_def load_failed_def)
    show ?thesis
    proof (cases x)
      case None
      then show ?thesis using o e1 tr0 by (simp add: trace_of_def subprocess_envs_append)
    next
      case (Some y)
      show ?thesis
      proof (cases y)
        case (Inl e)
        then show ?thesis using o e1 tr0 Some lf[of e]
          by (simp add: trace_of_def subprocess_envs_append)
      next
        case (Inr p)
        obtain z tr2 where s: "showCsv w p u = (z, tr2)" by (cases "showCsv w p u")
        have e2: "subprocess_envs tr2 = []" using subprocess_envs_showCsv[of w p u] s by simp
        show ?thesis
        proof (cases z)
          case None
          then show ?thesis using o e1 tr0 \<open>x = Some y\<close> Inr s e2
            by (simp add: trace_of_def subprocess_envs_append)
        next
          case (Some e)
          then show ?thesis using o e1 tr0 \<open>x = Some y\<close> Inr s e2 lf[of e]
            by (simp add: trace_of_def subprocess_envs_append)
        qed
      qed
    qed
  qed
qed

lemma subprocess_envs_openS3FileInEditor:
  "subprocess_envs (trace_of (openS3FileInEditor w u p r fs))
     = [spread (process_env w) (envExtrasOf p r)]"
proof -
  let ?d = "viewerPathOf (tmpdir w) (now w) u"
  obtain x fs1 tr where a: "awsS3CpToFile w u ?d (envExtrasOf p r) fs = (x, fs1, tr)"
    by (cases "awsS3CpToFile w u ?d (envExtrasOf p r) fs")
  have e: "subprocess_envs tr = [spread (process_env w) (envExtrasOf p r)]"
    using subprocess_envs_transfer[of w u ?d "envExtrasOf p r" fs] a by (simp add: trace_of_def)
  have "\<exists>post. trace_of (openS3FileInEditor w u p r fs) = tr @ post \<and> subprocess_envs post = []"
    using a
    by (auto simp: openS3FileInEditor_def Let_def trace_of_def subprocess_envs_def
        split: option.splits sum.splits)
  then show ?thesis using e by (auto simp: subprocess_envs_append)
qed

lemma subprocess_envs_pickAndOpenS3File:
  "set (subprocess_envs (trace_of (pickAndOpenS3File w cfg fs)))
     \<subseteq> {spread (process_env w)
           (envExtrasOf (map_option trim (cfg_awsProfile cfg)) (map_option trim (cfg_awsRegion cfg)))}"
proof -
  let ?p = "map_option trim (cfg_awsProfile cfg)"
  let ?r = "map_option trim (cfg_awsRegion cfg)"
  let ?E = "envExtrasOf ?p ?r"
  let ?S = "{spread (process_env w) ?E}"
  obtain rb tb where lb: "listBuckets w ?E = (rb, tb)" by (cases "listBuckets w ?E")
  have eb: "subprocess_envs tb = [spread (process_env w) ?E]"
    using listBuckets_trace[of w ?E] lb by (simp add: subprocess_envs_def)
  have pf: "subprocess_envs [pick_failed e] = []" for e
    by (simp add: subprocess_envs_def pick_failed_def)
  have qp: "subprocess_envs [ShowQuickPick xs ph] = []" for xs ph
    by (simp add: subprocess_envs_def)
  show ?thesis
  proof (cases rb)
    case (Inl e)
    then have "trace_of (pickAndOpenS3File w cfg fs) = tb @ [pick_failed e]"
      using lb by (simp add: pickAndOpenS3File_def Let_def trace_of_def)
    then show ?thesis using eb pf[of e] by (simp add: subprocess_envs_append)
  next
    case (Inr buckets)
    let ?t2 = "tb @ [ShowQuickPick buckets ''Select an S3 bucket'']"
    have "subprocess_envs ?t2
            = subprocess_envs tb @ subprocess_envs [ShowQuickPick buckets ''Select an S3 bucket'']"
      by (simp only: subprocess_envs_append)
    then have e2: "subprocess_envs ?t2 = [spread (process_env w) ?E]"
      using eb qp[of buckets "''Select an S3 bucket''"] by simp
    show ?thesis
    proof (cases "\<exists>bucket. quick_pick w buckets ''Select an S3 bucket'' = Some bucket \<and> bucket \<noteq> []")
      case False
      then have "trace_of (pickAndOpenS3File w cfg fs) = ?t2"
        using lb Inr by (auto simp: pickAndOpenS3File_def Let_def trace_of_def split: option.splits)
      then show ?thesis using e2 by simp
    next
      case True
      then obtain bucket where b: "quick_pick w buckets ''Select an S3 bucket'' = Some bucket"
        and bne: "bucket \<noteq> []" by blast
      obtain rk tk where lk: "listKeys w bucket ?E = (rk, tk)" by (cases "listKeys w bucket ?E")
      have ek: "subprocess_envs tk = [spread (process_env w) ?E]"
        using listKeys_trace[of w bucket ?E] lk by (simp add: subprocess_envs_def)
      show ?thesis
      proof (cases rk)
        case (Inl e)
        then have "trace_of (pickAndOpenS3File w cfg fs) = ?t2 @ tk @ [pick_failed e]"
          using lb \<open>rb = Inr buckets\<close> b bne lk
          by (simp add: pickAndOpenS3File_def Let_def trace_of_def)
        then have "subprocess_envs (trace_of (pickAndOpenS3File w cfg fs))
                     = subprocess_envs ?t2 @ subprocess_envs tk @ subprocess_envs [pick_failed e]"
          by (simp only: subprocess_envs_append)
        then show ?thesis using e2 ek pf[of e] by simp
      next
        case (Inr keys)
        let ?t4 = "?t2 @ tk @ [ShowQuickPick keys (''Select file from '' @ bucket)]"
        have "subprocess_envs ?t4
                = subprocess_envs ?t2 @ subprocess_envs tk
                  @ subprocess_envs [ShowQuickPick keys (''Select file from '' @ bucket)]"
          by (simp only: subprocess_envs_append)
        then have e4: "set (subprocess_envs ?t4) \<subseteq> ?S"
          using e2 ek qp[of keys "''Select file from '' @ bucket"] by simp
        show ?thesis
        proof (cases "\<exists>key. quick_pick w keys (''Select file from '' @ bucket) = Some key \<and> key \<noteq> []")
          case False
          then have "trace_of (pickAndOpenS3File w cfg fs) = ?t4"
            using lb \<open>rb = Inr buckets\<close> b bne lk Inr
            by (auto simp: pickAndOpenS3File_def Let_def trace_of_def split: option.splits)
          then show ?thesis using e4 by simp
        next
          case True
          then obtain key where k: "quick_pick w keys (''Select file from '' @ bucket) = Some key"
            and kne: "key \<noteq> []" by blast
          let ?u = "''s3://'' @ bucket @ ''/'' @ key"
          obtain x fs1 t5 where oe: "openS3FileInEditor w ?u ?p ?r fs = (x, fs1, t5)"
            by (cases "openS3FileInEditor w ?u ?p ?r fs")
          have e5: "subprocess_envs t5 = [spread (process_env w) ?E]"
            using subprocess_envs_openS3FileInEditor[of w ?u ?p ?r fs] oe by (simp add: trace_of_def)
          have "\<exists>post. trace_of (pickAndOpenS3File w cfg fs) = ?t4 @ t5 @ post
                  \<and> subprocess_envs post = []"
            using lb \<open>rb = Inr buckets\<close> b bne lk Inr k kne oe
            by (auto simp: pickAndOpenS3File_def Let_def trace_of_def subprocess_envs_def
                pick_failed_def split: option.splits sum.splits)
          then obtain post where t: "trace_of (pickAndOpenS3File w cfg fs) = ?t4 @ t5 @ post"
            and ep: "subprocess_envs post = []" by blast
          have "subprocess_envs (trace_of (pickAndOpenS3File w cfg fs))
                  = subprocess_envs ?t4 @ subprocess_envs t5 @ subprocess_envs post"
            by (simp only: t subprocess_envs_append)
          then show ?thesis using e4 e5 ep by simp
        qed
      qed
    qed
  qed
qed

text \<open>
  C8 as stated fails: the profile setting is present and not empty, but blank; it is
  trimmed to the empty string and AWS_PROFILE is left out of the environment.
\<close>

theorem blank_profile_is_omitted_counterexample:
  "cfg_awsProfile blank_config = Some ''  '' \<and> ''  '' \<noteq> ([] :: string)
   \<and> subprocess_envs (trace_of (openCsvFromS3 sample_world blank_config None Map.empty))
       = [[(''PATH'', ''/usr/bin'')]]"
  by (simp add: openCsvFromS3_def resolveUri_def showCsv_def subprocess_envs_def blank_config_def
      cfg_eval fetch_eval sample_path)

text \<open>
  C8 (amended). Every subprocess that \<open>openCsvFromS3\<close> or \<open>pickAndOpenS3File\<close> starts gets the
  environment of the host overridden by the same overrides, built from the settings: they
  hold AWS_PROFILE exactly when the profile setting is present and not empty after
  \<open>trim()\<close>, with the trimmed value, and AWS_REGION likewise for the region setting; they
  hold no other key, so an absent, empty or blank setting is left out and never set to
  the empty string.
\<close>

theorem subprocess_env_from_settings:
  fixes w :: world and cfg :: config
  defines "E \<equiv> envExtrasOf (map_option trim (cfg_awsProfile cfg)) (map_option trim (cfg_awsRegion cfg))"
  shows "set (subprocess_envs (trace_of (openCsvFromS3 w cfg uriFromInput fs)))
           \<subseteq> {spread (process_env w) E}
         \<and> set (subprocess_envs (trace_of (pickAndOpenS3File w cfg fsp)))
           \<subseteq> {spread (process_env w) E}
         \<and> map_of (spread (process_env w) E) = map_of (process_env w) ++ map_of E
         \<and> (''AWS_PROFILE'' \<in> fst ` set E \<longleftrightarrow> (\<exists>v. cfg_awsProfile cfg = Some v \<and> trim v \<noteq> []))
         \<and> (''AWS_REGION'' \<in> fst ` set E \<longleftrightarrow> (\<exists>v. cfg_awsRegion cfg = Some v \<and> trim v \<noteq> []))
         \<and> map_of E ''AWS_PROFILE''
             = (case cfg_awsProfile cfg of
                  None \<Rightarrow> None
                | Some v \<Rightarrow> if trim v = [] then None else Some (trim v))
         \<and> map_of E ''AWS_REGION''
             = (case cfg_awsRegion cfg of
                  None \<Rightarrow> None
                | Some v \<Rightarrow> if trim v = [] then None else Some (trim v))
         \<and> fst ` set E \<subseteq> {''AWS_PROFILE'', ''AWS_REGION''}"
proof -
  have 1: "set (subprocess_envs (trace_of (openCsvFromS3 w cfg uriFromInput fs)))
           \<subseteq> {spread (process_env w) E}"
    unfolding E_def by (rule subprocess_envs_openCsvFromS3)
  have 2: "set (subprocess_envs (trace_of (pickAndOpenS3File w cfg fsp)))
           \<subseteq> {spread (process_env w) E}"
    unfolding E_def by (rule subprocess_envs_pickAndOpenS3File)
  have 3: "map_of (spread (process_env w) E) = map_of (process_env w) ++ map_of E"
    unfolding E_def by (rule map_of_spread_envExtras)
  have 4: "(''AWS_PROFILE'' \<in> fst ` set E \<longleftrightarrow> (\<exists>v. cfg_awsProfile cfg = Some v \<and> trim v \<noteq> []))"
    by (cases "cfg_awsProfile cfg"; cases "cfg_awsRegion cfg")
      (auto simp: E_def envExtrasOf_cases truthy_def)
  have 5: "(''AWS_REGION'' \<in> fst ` set E \<longleftrightarrow> (\<exists>v. cfg_awsRegion cfg = Some v \<and> trim v \<noteq> []))"
    by (cases "cfg_awsProfile cfg"; cases "cfg_awsRegion cfg")
      (auto simp: E_def envExtrasOf_cases truthy_def)
  have 6: "map_of E ''AWS_PROFILE''
             = (case cfg_awsProfile cfg of
                  None \<Rightarrow> None
                | Some v \<Rightarrow> if trim v = [] then None else Some (trim v))"
    by (cases "cfg_awsProfile cfg"; cases "cfg_awsRegion cfg")
      (auto simp: E_def envExtrasOf_cases truthy_def)
  have 7: "map_of E ''AWS_REGION''
             = (case cfg_awsRegion cfg of
                  None \<Rightarrow> None
                | Some v \<Rightarrow> if trim v = [] then None else Some (trim v))"
    by (cases "cfg_awsProfile cfg"; cases "cfg_awsRegion cfg")
      (auto simp: E_def envExtrasOf_cases truthy_def)
  have 8: "fst ` set E \<subseteq> {''AWS_PROFILE'', ''AWS_REGION''}"
    by (auto simp: E_def envExtrasOf_cases)
  show ?thesis
    apply (intro conjI)
    using 1 2 3 4 5 6 7 8 apply simp_all
    done
qed

theorem subprocess_env_from_settings_witness:
  "set (subprocess_envs (trace_of (openCsvFromS3 sample_world sample_config None Map.empty)))
     \<subseteq> {[(''PATH'', ''/usr/bin''), (''AWS_PROFILE'', ''dev'')]}
   \<and> subprocess_envs (trace_of (openCsvFromS3 sample_world sample_config None Map.empty)) \<noteq> []
   \<and> set (subprocess_envs (trace_of (pickAndOpenS3File file_chosen_world sample_config Map.empty)))
     \<subseteq> {[(''PATH'', ''/usr/bin''), (''AWS_PROFILE'', ''dev'')]}
   \<and> length (subprocess_envs (trace_of (pickAndOpenS3File file_chosen_world sample_config Map.empty))) = 3
   \<and> set (subprocess_envs (trace_of (openCsvFromS3 sample_world blank_config None Map.empty)))
     \<subseteq> {[(''PATH'', ''/usr/bin'')]}"
proof -
  have E1: "spread (process_env sample_world)
              (envExtrasOf (map_option trim (cfg_awsProfile sample_config))
                 (map_option trim (cfg_awsRegion sample_config)))
            = [(''PATH'', ''/usr/bin''), (''AWS_PROFILE'', ''dev'')]"
    by (simp add: cfg_eval)
  have E2: "spread (process_env file_chosen_world)
              (envExtrasOf (map_option trim (cfg_awsProfile sample_config))
                 (map_option trim (cfg_awsRegion sample_config)))
            = [(''PATH'', ''/usr/bin''), (''AWS_PROFILE'', ''dev'')]"
    by (simp add: cfg_eval file_chosen_world_def picker_world_def)
  have E3: "spread (process_env sample_world)
              (envExtrasOf (map_option trim (cfg_awsProfile blank_config))
                 (map_option trim (cfg_awsRegion blank_config)))
            = [(''PATH'', ''/usr/bin'')]"
    by (simp add: cfg_eval blank_config_def)
  have n1: "subprocess_envs (trace_of (openCsvFromS3 sample_world sample_config None Map.empty)) \<noteq> []"
    by (simp add: openCsvFromS3_def resolveUri_def showCsv_def subprocess_envs_def cfg_eval
        fetch_eval sample_path)
  have n2: "length (subprocess_envs (trace_of (pickAndOpenS3File file_chosen_world sample_config
                                                 Map.empty))) = 3"
    by (simp add: pickAndOpenS3File_def openS3FileInEditor_def viewerPathOf_def subprocess_envs_def
        listBuckets_def listKeys_def runAwsCli_def file_chosen_world_def picker_world_def
        cfg_eval fetch_eval path_eval)
  note a = subprocess_env_from_settings[where w=sample_world and cfg=sample_config
              and uriFromInput=None and fs=Map.empty, unfolded E1]
  note b = subprocess_env_from_settings[where w=file_chosen_world and cfg=sample_config
              and uriFromInput=None and fs=Map.empty and fsp=Map.empty, unfolded E2]
  note c = subprocess_env_from_settings[where w=sample_world and cfg=blank_config
              and uriFromInput=None and fs=Map.empty, unfolded E3]
  from a have 1: "set (subprocess_envs (trace_of (openCsvFromS3 sample_world sample_config None Map.empty)))
     \<subseteq> {[(''PATH'', ''/usr/bin''), (''AWS_PROFILE'', ''dev'')]}" by (rule conjunct1)
  from b have 2: "set (subprocess_envs (trace_of (pickAndOpenS3File file_chosen_world sample_config Map.empty)))
     \<subseteq> {[(''PATH'', ''/usr/bin''), (''AWS_PROFILE'', ''dev'')]}"
    by (rule conjunct1[OF conjunct2])
  from c have 3: "set (subprocess_envs (trace_of (openCsvFromS3 sample_world blank_config None Map.empty)))
     \<subseteq> {[(''PATH'', ''/usr/bin'')]}" by (rule conjunct1)
  from 1 n1 2 n2 3 show ?thesis by (intro conjI)
qed

end
